theory Spec2Isabelle
  imports Main "HOL-Library.Char_ord" "HOL-Library.List_Lexorder" "HOL-Library.Product_Lexorder"
    "HOL-Library.Multiset"
begin

section \<open>Exceptions\<close>

text \<open>
  The exceptions the datastore raises or lets through. \<open>BadRequest\<close>, \<open>NotFound\<close> and
  \<open>Conflict\<close> are pyon's (pyon.core.exception); a \<open>CouchError\<close> is one of the CouchDB
  client's (couchdb.http); the others are Python's own. The message of a \<open>BadRequest\<close> is the
  format string of the source, without its arguments filled in.
\<close>

datatype couch_exn = ResourceNotFound | ResourceConflict | PreconditionFailed | ServerError

datatype exn =
    BadRequest string
  | NotFound
  | Conflict
  | CouchError couch_exn
  | KeyError string
  | IndexError
  | TypeError
  | AttributeError
  | ValueError

section \<open>Index keys and collation\<close>

text \<open>
  A component of a composite index key. \<open>KNull\<close> is what \<open>emit\<close> writes for an
  undefined field.

  Modelled from the spec: \<open>END_MARKER\<close> (pyon.datastore.couchdb.couch_common) and the
  store's collation are not part of the sources at hand. The spec describes the
  collation as null < number < string, lexicographic within each type, sequences
  compared pairwise, and the end marker as a value that sorts after every real value
  of the component it stands for; \<open>KEnd\<close> is that marker.
\<close>

datatype kc = KNull | KNum int | KStr string | KEnd

fun kc_less :: "kc \<Rightarrow> kc \<Rightarrow> bool" where
  "kc_less KNull b = (b \<noteq> KNull)"
| "kc_less (KNum m) b = (case b of KNull \<Rightarrow> False | KNum n \<Rightarrow> m < n | KStr y \<Rightarrow> True | KEnd \<Rightarrow> True)"
| "kc_less (KStr x) b = (case b of KNull \<Rightarrow> False | KNum n \<Rightarrow> False | KStr y \<Rightarrow> x < y | KEnd \<Rightarrow> True)"
| "kc_less KEnd b = False"

instantiation kc :: linorder
begin

definition less_kc :: "kc \<Rightarrow> kc \<Rightarrow> bool" where
  "less_kc a b = kc_less a b"

definition less_eq_kc :: "kc \<Rightarrow> kc \<Rightarrow> bool" where
  "less_eq_kc a b = (a = b \<or> kc_less a b)"

instance
proof
  fix x y z :: kc
  show "(x < y) = (x \<le> y \<and> \<not> y \<le> x)"
    by (cases x; cases y) (auto simp: less_kc_def less_eq_kc_def)
  show "x \<le> x"
    by (simp add: less_eq_kc_def)
  show "x \<le> y \<Longrightarrow> y \<le> z \<Longrightarrow> x \<le> z"
    by (cases x; cases y; cases z) (auto simp: less_eq_kc_def)
  show "x \<le> y \<Longrightarrow> y \<le> x \<Longrightarrow> x = y"
    by (cases x; cases y) (auto simp: less_eq_kc_def)
  show "x \<le> y \<or> y \<le> x"
    by (cases x; cases y) (auto simp: less_eq_kc_def)
qed

end

text \<open>An undefined (absent) string field is emitted as null.\<close>

definition kopt :: "string option \<Rightarrow> kc" where
  "kopt v = (case v of None \<Rightarrow> KNull | Some x \<Rightarrow> KStr x)"

section \<open>Documents\<close>

text \<open>
  A sub-object held in an attribute of a document: the views read its \<open>type_\<close> and,
  for \<open>contact\<close>, its \<open>email\<close>.
\<close>

record nested_obj =
  n_type :: string
  n_email :: "string option"

text \<open>
  A stored document, with the fields the view functions read. A field the JavaScript
  compares with \<open>undefined\<close> is an option. \<open>doc_type\<close> is the field \<open>type_\<close>; it is only ever tested for
  truthiness or compared with a non-empty literal before it is used, so the empty
  string stands for an absent \<open>type_\<close> as well. \<open>doc_retired\<close> is only ever negated,
  so \<open>False\<close> stands for an absent flag.
\<close>

record document =
  doc_id :: string
  doc_rev :: string
  doc_type :: string
  doc_lcstate :: "string option"
  doc_availability :: "string option"
  doc_name :: "string option"
  doc_alt_ids :: "string list option"
  doc_uirefid :: "string option"
  doc_keywords :: "string list option"
  doc_attrs :: "(string \<times> nested_obj) list"
  doc_s :: "string option"
  doc_st :: "string option"
  doc_p :: "string option"
  doc_o :: "string option"
  doc_ot :: "string option"
  doc_ts :: "string option"
  doc_retired :: bool

section \<open>View map functions (views.py)\<close>

text \<open>
  A map function sends a document to the list of (key, value) pairs it emits. The
  resource views emit \<open>null\<close> as the value, the association views the document.
\<close>

text \<open>JavaScript's \<open>String.split\<close> on a one-character separator.\<close>

fun js_split :: "char \<Rightarrow> string \<Rightarrow> string list" where
  "js_split c [] = [[]]"
| "js_split c (x # xs) =
     (if x = c then [] # js_split c xs
      else (case js_split c xs of [] \<Rightarrow> [[x]] | w # ws \<Rightarrow> (x # w) # ws))"

text \<open>\<open>String(doc.name).substring(0,200)\<close>\<close>

definition substring_0_200 :: "string \<Rightarrow> string" where
  "substring_0_200 n = take 200 n"

definition resource_by_type :: "document \<Rightarrow> (kc list \<times> document option) list" where
  "resource_by_type doc =
     (if doc_type doc \<noteq> [] \<and> doc_lcstate doc \<noteq> None \<and> doc_lcstate doc \<noteq> Some ''RETIRED''
         \<and> doc_name doc \<noteq> None
      then [([KStr (doc_type doc), KStr (substring_0_200 (the (doc_name doc)))], None)]
      else [])"

definition resource_by_lcstate :: "document \<Rightarrow> (kc list \<times> document option) list" where
  "resource_by_lcstate doc =
     (if doc_type doc \<noteq> [] \<and> doc_lcstate doc \<noteq> None \<and> doc_availability doc \<noteq> None
         \<and> doc_name doc \<noteq> None
      then [([KNum 0, kopt (doc_lcstate doc), KStr (doc_type doc),
              KStr (substring_0_200 (the (doc_name doc)))], None),
            ([KNum 1, kopt (doc_availability doc), KStr (doc_type doc),
              KStr (substring_0_200 (the (doc_name doc)))], None)]
      else [])"

definition resource_by_name :: "document \<Rightarrow> (kc list \<times> document option) list" where
  "resource_by_name doc =
     (if doc_type doc \<noteq> [] \<and> doc_lcstate doc \<noteq> None \<and> doc_lcstate doc \<noteq> Some ''RETIRED''
         \<and> doc_name doc \<noteq> None
      then [([kopt (doc_name doc), KStr (doc_type doc)], None)]
      else [])"

text \<open>
  The loop body of \<open>by_altid\<close>: one emission per entry of \<open>alt_ids\<close>. An array is
  truthy in JavaScript even when it is empty, so \<open>doc.alt_ids\<close> holds whenever the
  field is present.
\<close>

definition altid_emit :: "string \<Rightarrow> kc list \<times> document option" where
  "altid_emit altid =
     (let parts = js_split CHR '':'' altid
      in if length parts = 2 then ([KStr (parts ! 1), KStr (parts ! 0)], None)
         else ([KStr altid, KStr ''_''], None))"

definition resource_by_altid :: "document \<Rightarrow> (kc list \<times> document option) list" where
  "resource_by_altid doc =
     (if doc_type doc \<noteq> [] \<and> doc_alt_ids doc \<noteq> None \<and> doc_lcstate doc \<noteq> Some ''RETIRED''
      then map altid_emit (the (doc_alt_ids doc))
      else if doc_type doc \<noteq> [] \<and> doc_uirefid doc \<noteq> None \<and> doc_uirefid doc \<noteq> Some []
                \<and> doc_lcstate doc \<noteq> Some ''RETIRED''
      then [([kopt (doc_uirefid doc), KStr ''UIREFID''], None)]
      else [])"

definition resource_by_keyword :: "document \<Rightarrow> (kc list \<times> document option) list" where
  "resource_by_keyword doc =
     (if doc_type doc \<noteq> [] \<and> doc_lcstate doc \<noteq> Some ''RETIRED'' \<and> doc_keywords doc \<noteq> None
      then map (\<lambda>k. ([KStr k, KStr (doc_type doc)], None)) (the (doc_keywords doc))
      else [])"

definition resource_by_nestedtype :: "document \<Rightarrow> (kc list \<times> document option) list" where
  "resource_by_nestedtype doc =
     (if doc_type doc \<noteq> [] \<and> doc_lcstate doc \<noteq> Some ''RETIRED''
      then map (\<lambda>(attr, v). ([KStr (n_type v), KStr (doc_type doc)], None))
             (filter (\<lambda>(attr, v). n_type v \<noteq> []) (doc_attrs doc))
      else [])"

definition resource_by_attribute :: "document \<Rightarrow> (kc list \<times> document option) list" where
  "resource_by_attribute doc =
     (if doc_type doc \<noteq> [] \<and> doc_lcstate doc \<noteq> Some ''RETIRED''
      then (if doc_type doc = ''UserInfo''
            then (case map_of (doc_attrs doc) ''contact'' of
                    None \<Rightarrow> []
                  | Some c \<Rightarrow>
                      (case n_email c of
                         None \<Rightarrow> []
                       | Some e \<Rightarrow> [([KStr (doc_type doc), KStr ''contact.email'', KStr e], None)]))
            else [])
      else [])"

definition association_by_sub :: "document \<Rightarrow> (kc list \<times> document option) list" where
  "association_by_sub doc =
     (if doc_type doc = ''Association'' \<and> \<not> doc_retired doc
      then [([kopt (doc_s doc), kopt (doc_p doc), kopt (doc_ot doc), kopt (doc_o doc)], Some doc)]
      else [])"

definition association_by_obj :: "document \<Rightarrow> (kc list \<times> document option) list" where
  "association_by_obj doc =
     (if doc_type doc = ''Association'' \<and> \<not> doc_retired doc
      then [([kopt (doc_o doc), kopt (doc_p doc), kopt (doc_st doc), kopt (doc_s doc)], Some doc)]
      else [])"

definition association_by_match :: "document \<Rightarrow> (kc list \<times> document option) list" where
  "association_by_match doc =
     (if doc_type doc = ''Association'' \<and> \<not> doc_retired doc
      then [([kopt (doc_s doc), kopt (doc_o doc), kopt (doc_p doc)], Some doc)]
      else [])"

definition association_by_idpred :: "document \<Rightarrow> (kc list \<times> document option) list" where
  "association_by_idpred doc =
     (if doc_type doc = ''Association'' \<and> \<not> doc_retired doc
      then [([kopt (doc_s doc), kopt (doc_p doc)], Some doc),
            ([kopt (doc_o doc), kopt (doc_p doc)], Some doc)]
      else [])"

definition association_by_id :: "document \<Rightarrow> (kc \<times> document option) list" where
  "association_by_id doc =
     (if doc_type doc = ''Association'' \<and> \<not> doc_retired doc
      then [(kopt (doc_s doc), Some doc), (kopt (doc_o doc), Some doc)]
      else [])"

definition association_by_pred :: "document \<Rightarrow> (kc list \<times> document option) list" where
  "association_by_pred doc =
     (if doc_type doc = ''Association'' \<and> \<not> doc_retired doc
      then [([kopt (doc_p doc), kopt (doc_s doc), kopt (doc_o doc)], Some doc)]
      else [])"

section \<open>The store and its indexes\<close>

text \<open>
  A row of a view result: the id of the emitting document, the emitted key and value,
  and the document itself when the query asked for it (\<open>include_docs\<close>).
\<close>

record 'k row =
  row_id :: string
  row_key :: 'k
  row_value :: "document option"
  row_doc :: "document option"

text \<open>
  The datastore: the documents it holds, and the warnings logged so far
  (\<open>log.warn\<close>; debug output and the call counters of \<open>_count\<close> are not modelled).
\<close>

record datastore =
  docs :: "document list"
  warnings :: "string list"

text \<open>
  Modelled from the spec: the store's view engine (CouchDB behind
  \<open>ds.view(...)\<close>, not part of the sources at hand). A view holds the emissions of
  every document, sorted by key and then by document id; a range query returns the
  rows between \<open>startkey\<close> and \<open>endkey\<close>, both inclusive; a \<open>keys\<close> query returns,
  key by key, the rows with exactly that key; \<open>limit\<close> cuts the result.
\<close>

definition row_of :: "bool \<Rightarrow> document \<Rightarrow> 'k \<times> document option \<Rightarrow> 'k row" where
  "row_of include_docs d kv =
     \<lparr>row_id = doc_id d, row_key = fst kv, row_value = snd kv,
      row_doc = (if include_docs then Some d else None)\<rparr>"

definition emit_rows ::
  "(document \<Rightarrow> ('k \<times> document option) list) \<Rightarrow> bool \<Rightarrow> document \<Rightarrow> 'k row list" where
  "emit_rows mapf include_docs d = map (row_of include_docs d) (mapf d)"

definition view ::
  "(document \<Rightarrow> ('k::linorder \<times> document option) list) \<Rightarrow> bool \<Rightarrow> datastore \<Rightarrow> 'k row list" where
  "view mapf include_docs ds =
     sort_key (\<lambda>r. (row_key r, row_id r)) (concat (map (emit_rows mapf include_docs) (docs ds)))"

definition view_range :: "('k::linorder) row list \<Rightarrow> 'k \<Rightarrow> 'k \<Rightarrow> 'k row list" where
  "view_range rows startkey endkey = filter (\<lambda>r. startkey \<le> row_key r \<and> row_key r \<le> endkey) rows"

definition view_keys :: "'k row list \<Rightarrow> 'k list \<Rightarrow> 'k row list" where
  "view_keys rows keys = concat (map (\<lambda>k. filter (\<lambda>r. row_key r = k) rows) keys)"

definition view_limit :: "nat option \<Rightarrow> 'a list \<Rightarrow> 'a list" where
  "view_limit limit rows = (case limit of None \<Rightarrow> rows | Some n \<Rightarrow> take n rows)"

text \<open>
  Modelled from the spec: \<open>_get_endkey\<close> (base_store.py, not part of the sources at
  hand): the end key of a prefix range scan is the start key with the end marker
  appended.
\<close>

definition get_endkey :: "kc list \<Rightarrow> kc list" where
  "get_endkey startkey = startkey @ [KEnd]"

section \<open>Document operations\<close>

text \<open>
  An IonObject handed to the datastore as an argument: the datastore looks at its
  \<open>_id\<close>, its \<open>_rev\<close> and its type only. Objects the datastore returns are
  represented by their documents.
\<close>

record ion_object =
  io_id :: "string option"
  io_rev :: "string option"
  io_type :: string

text \<open>A subject, object or document argument: a string id or an IonObject.\<close>

datatype ref = RefStr string | RefObj ion_object

text \<open>Python truthiness of an optional argument of that kind, and of an optional string.\<close>

fun ref_truthy :: "ref option \<Rightarrow> bool" where
  "ref_truthy None = False"
| "ref_truthy (Some (RefStr x)) = (x \<noteq> [])"
| "ref_truthy (Some (RefObj x)) = True"

fun truthy :: "string option \<Rightarrow> bool" where
  "truthy None = False"
| "truthy (Some x) = (x \<noteq> [])"

definition persistence_dict_to_ion_object :: "document \<Rightarrow> ion_object" where
  "persistence_dict_to_ion_object d =
     \<lparr>io_id = Some (doc_id d), io_rev = Some (doc_rev d), io_type = doc_type d\<rparr>"

text \<open>
  Modelled from the spec: the document operations of the base store (base_store.py,
  not part of the sources at hand): \<open>get(id)\<close>, \<open>getMany(ids)\<close>, \<open>put(doc)\<close>,
  \<open>delete(id, revision)\<close> and \<open>deleteMany(ids)\<close>. A read of an absent id is
  \<open>NotFound\<close>; a write against the wrong revision, or of an id that is taken, is
  \<open>Conflict\<close>. Failures leave the store as it was.
\<close>

definition read_doc :: "datastore \<Rightarrow> string \<Rightarrow> exn + document" where
  "read_doc ds object_id =
     (case find (\<lambda>d. doc_id d = object_id) (docs ds) of
        None \<Rightarrow> Inl NotFound
      | Some d \<Rightarrow> Inr d)"


definition create_doc :: "datastore \<Rightarrow> document \<Rightarrow> string \<Rightarrow> (exn + string \<times> string) \<times> datastore" where
  "create_doc ds doc object_id =
     (if object_id \<in> set (map doc_id (docs ds)) then (Inl Conflict, ds)
      else (Inr (object_id, ''1''),
            ds\<lparr>docs := docs ds @ [doc\<lparr>doc_id := object_id, doc_rev := ''1''\<rparr>]\<rparr>))"

text \<open>The argument of a delete: an id, or a document with its \<open>_id\<close> and \<open>_rev\<close>.\<close>

datatype docref = DocId string | DocDict string string

fun docref_id :: "docref \<Rightarrow> string" where
  "docref_id (DocId i) = i"
| "docref_id (DocDict i r) = i"

definition base_delete_doc :: "datastore \<Rightarrow> docref \<Rightarrow> (exn + unit) \<times> datastore" where
  "base_delete_doc ds doc =
     (case read_doc ds (docref_id doc) of
        Inl e \<Rightarrow> (Inl e, ds)
      | Inr d \<Rightarrow>
          (case doc of
             DocId i \<Rightarrow> (Inr (), ds\<lparr>docs := filter (\<lambda>x. doc_id x \<noteq> i) (docs ds)\<rparr>)
           | DocDict i r \<Rightarrow>
               (if doc_rev d = r
                then (Inr (), ds\<lparr>docs := filter (\<lambda>x. doc_id x \<noteq> i) (docs ds)\<rparr>)
                else (Inl Conflict, ds))))"

definition delete_doc_mult :: "datastore \<Rightarrow> string list \<Rightarrow> datastore" where
  "delete_doc_mult ds object_ids = ds\<lparr>docs := filter (\<lambda>x. doc_id x \<notin> set object_ids) (docs ds)\<rparr>"

text \<open>\<open>read\<close> and \<open>read_mult\<close> (datastore.py, lines 89-105); the ids are strings by type.\<close>

definition read :: "datastore \<Rightarrow> string \<Rightarrow> exn + ion_object" where
  "read ds object_id =
     (case read_doc ds object_id of
        Inl e \<Rightarrow> Inl e
      | Inr doc \<Rightarrow> Inr (persistence_dict_to_ion_object doc))"


section \<open>Association queries (datastore.py, lines 231-449)\<close>

text \<open>
  The result of a find: ids when \<open>id_only\<close> is set, objects otherwise.
\<close>

datatype ('i, 'b) found = Ids "'i list" | Objs "'b list"

fun the_ids :: "('i, 'b) found \<Rightarrow> 'i list" where
  "the_ids (Ids xs) = xs"
| "the_ids (Objs ys) = []"

fun found_len :: "('i, 'b) found \<Rightarrow> nat" where
  "found_len (Ids xs) = length xs"
| "found_len (Objs ys) = length ys"

text \<open>
  The \<open>anyside\<close> argument: an id, a list whose entries are ids or (id, predicate)
  lists, or an IonObject.
\<close>

datatype anyside = AnyStr string | AnyList "(string + string list) list" | AnyObj ion_object

fun anyside_truthy :: "anyside option \<Rightarrow> bool" where
  "anyside_truthy None = False"
| "anyside_truthy (Some (AnyStr x)) = (x \<noteq> [])"
| "anyside_truthy (Some (AnyList xs)) = (xs \<noteq> [])"
| "anyside_truthy (Some (AnyObj x)) = True"

fun anyside_is_list :: "anyside option \<Rightarrow> bool" where
  "anyside_is_list (Some (AnyList xs)) = True"
| "anyside_is_list a = False"

text \<open>The id of a string-or-object argument; \<open>None\<close> when the object has no \<open>_id\<close>.\<close>

fun ref_id :: "ref \<Rightarrow> string option" where
  "ref_id (RefStr x) = Some x"
| "ref_id (RefObj ob) = io_id ob"

text \<open>\<open>anyside_ids\<close> (lines 388-399); \<open>None\<close> when the object has no \<open>_id\<close>.\<close>

fun anyside_ids :: "anyside \<Rightarrow> (string + string list) list option" where
  "anyside_ids (AnyStr x) = Some [Inl x]"
| "anyside_ids (AnyList xs) = Some xs"
| "anyside_ids (AnyObj ob) = (case io_id ob of None \<Rightarrow> None | Some i \<Rightarrow> Some [Inl i])"

text \<open>A key list given to a view with scalar keys, or to one with list keys.\<close>

definition scalar_keys :: "(string + string list) list \<Rightarrow> kc list" where
  "scalar_keys ks = concat (map (\<lambda>k. case k of Inl x \<Rightarrow> [KStr x] | Inr l \<Rightarrow> []) ks)"

definition list_keys :: "(string + string list) list \<Rightarrow> kc list list" where
  "list_keys ks = concat (map (\<lambda>k. case k of Inl x \<Rightarrow> [] | Inr l \<Rightarrow> [map KStr l]) ks)"

definition id_value :: "'k row \<Rightarrow> string \<times> document option" where
  "id_value r = (row_id r, row_value r)"

text \<open>The key of a scan: the given components, then the predicate when it is set.\<close>

definition with_pred :: "kc list \<Rightarrow> string option \<Rightarrow> kc list" where
  "with_pred key predicate = (if truthy predicate then key @ [KStr (the predicate)] else key)"

definition find_associations ::
  "datastore \<Rightarrow> ref option \<Rightarrow> string option \<Rightarrow> ref option \<Rightarrow> bool \<Rightarrow> anyside option \<Rightarrow> nat option
     \<Rightarrow> exn + (string, document option) found" where
  "find_associations ds subject predicate obj id_only anyside limit =
     (if \<not> (ref_truthy subject \<or> ref_truthy obj \<or> truthy predicate \<or> anyside_truthy anyside)
      then Inl (BadRequest ''Illegal parameters: No S/P/O or anyside'')
      else if anyside_truthy anyside \<and> (ref_truthy subject \<or> ref_truthy obj)
      then Inl (BadRequest ''Illegal parameters: anyside cannot be combined with S/O'')
      else if anyside_truthy anyside \<and> truthy predicate \<and> anyside_is_list anyside
      then Inl (BadRequest ''Illegal parameters: anyside list cannot be combined with P'')
      else if ref_truthy subject \<and> ref_id (the subject) = None
      then Inl (BadRequest ''Object id not available in subject'')
      else if ref_truthy obj \<and> ref_id (the obj) = None
      then Inl (BadRequest ''Object id not available in object'')
      else if anyside_truthy anyside \<and> anyside_ids (the anyside) = None
      then Inl (BadRequest ''Object id not available in anyside'')
      else
        (let rows =
           (if ref_truthy subject \<and> ref_truthy obj then
              (let key = with_pred [KStr (the (ref_id (the subject))), KStr (the (ref_id (the obj)))] predicate
               in Inr (map id_value (view_limit limit
                    (view_range (view association_by_match False ds) key (get_endkey key)))))
            else if ref_truthy subject then
              (let key = with_pred [KStr (the (ref_id (the subject)))] predicate
               in Inr (map id_value (view_limit limit
                    (view_range (view association_by_sub False ds) key (get_endkey key)))))
            else if ref_truthy obj then
              (let key = with_pred [KStr (the (ref_id (the obj)))] predicate
               in Inr (map id_value (view_limit limit
                    (view_range (view association_by_obj False ds) key (get_endkey key)))))
            else if anyside_truthy anyside then
              (if truthy predicate then
                 (case the anyside of
                    AnyStr x \<Rightarrow>
                      (let key = [KStr x, KStr (the predicate)]
                       in Inr (map id_value (view_limit limit
                            (view_range (view association_by_idpred False ds) key (get_endkey key)))))
                  | AnyList xs \<Rightarrow> Inl TypeError
                  | AnyObj ob \<Rightarrow> Inl TypeError)
               else
                 (case hd (the (anyside_ids (the anyside))) of
                    Inl x \<Rightarrow>
                      Inr (map id_value (view_limit limit
                        (view_keys (view association_by_id False ds)
                           (scalar_keys (the (anyside_ids (the anyside)))))))
                  | Inr l \<Rightarrow>
                      Inr (map id_value (view_limit limit
                        (view_keys (view association_by_idpred False ds)
                           (list_keys (the (anyside_ids (the anyside)))))))))
            else if truthy predicate then
              (let key = [KStr (the predicate)]
               in Inr (map id_value (view_limit limit
                    (view_range (view association_by_pred False ds) key (get_endkey key)))))
            else Inl (BadRequest ''Illegal arguments''))
         in case rows of
              Inl e \<Rightarrow> Inl e
            | Inr rs \<Rightarrow> Inr (if id_only then Ids (map fst rs) else Objs (map snd rs))))"

text \<open>\<open>_is_in_association\<close> (lines 231-242).\<close>

definition is_in_association :: "datastore \<Rightarrow> string \<Rightarrow> exn + bool" where
  "is_in_association ds obj_id =
     (if obj_id = [] then Inl (BadRequest ''Must provide object id'')
      else (case find_associations ds None None None True (Some (AnyStr obj_id)) (Some 1) of
              Inl e \<Rightarrow> Inl e
            | Inr assoc_ids \<Rightarrow> Inr (the_ids assoc_ids \<noteq> [])))"



section \<open>Deleting documents (datastore.py, lines 108-134)\<close>

definition delete_doc :: "datastore \<Rightarrow> docref \<Rightarrow> bool \<Rightarrow> (exn + unit) \<times> datastore" where
  "delete_doc ds doc del_associations =
     (let doc_id = docref_id doc
      in if del_associations then
           (case find_associations ds None None None True (Some (AnyStr doc_id)) None of
              Inl e \<Rightarrow> (Inl e, ds)
            | Inr assoc_ids \<Rightarrow> base_delete_doc (delete_doc_mult ds (the_ids assoc_ids)) doc)
         else
           (case is_in_association ds doc_id of
              Inl e \<Rightarrow> (Inl e, ds)
            | Inr True \<Rightarrow>
                base_delete_doc
                  (ds\<lparr>warnings := warnings ds @ [''Deleting object %s that still has associations'']\<rparr>)
                  doc
            | Inr False \<Rightarrow> base_delete_doc ds doc))"

text \<open>\<open>delete\<close> (lines 108-119); \<open>CHR 0x27\<close> is the single quote in its messages.\<close>

definition delete :: "datastore \<Rightarrow> ref \<Rightarrow> bool \<Rightarrow> (exn + unit) \<times> datastore" where
  "delete ds obj del_associations =
     (case obj of
        RefStr i \<Rightarrow> delete_doc ds (DocId i) del_associations
      | RefObj ob \<Rightarrow>
          (case io_id ob of
             None \<Rightarrow> (Inl (BadRequest (''Doc must have '' @ [CHR 0x27] @ ''_id'' @ [CHR 0x27])), ds)
           | Some i \<Rightarrow>
               (case io_rev ob of
                  None \<Rightarrow> (Inl (BadRequest (''Doc must have '' @ [CHR 0x27] @ ''_rev'' @ [CHR 0x27])), ds)
                | Some r \<Rightarrow> delete_doc ds (DocDict i r) del_associations)))"

section \<open>Association operations (datastore.py, lines 140-225)\<close>

text \<open>
  Modelled from the spec: the predicate definitions (\<open>Predicates\<close>, pyon.ion.resource),
  the type-extension metadata (\<open>getextends\<close>, pyon.core.registry) and the availability
  states (\<open>CommonResourceLifeCycleSM.AVAILABILITY\<close>) are static, read-only tables that
  are not part of the sources at hand; they are parameters here. A predicate has a
  \<open>domain\<close> of subject types and a \<open>range\<close> of object types; \<open>getextends t\<close> lists the
  types that extend \<open>t\<close>.
\<close>

record predicate_def =
  pt_domain :: "string list"
  pt_range :: "string list"

record registry =
  Predicates :: "string \<Rightarrow> predicate_def option"
  getextends :: "string \<Rightarrow> string list"
  AVAILABILITY :: "string list"

text \<open>
  Lines 149-157 and 159-167: the subject (or object) is read from the store when it
  is given as an id, and must carry \<open>_id\<close> and \<open>_rev\<close> when it is given as an object.
  The result is the object, its id and its type.
\<close>

definition resolve :: "datastore \<Rightarrow> ref \<Rightarrow> string \<Rightarrow> exn + ion_object \<times> string \<times> string" where
  "resolve ds x msg =
     (case x of
        RefStr i \<Rightarrow>
          (case read ds i of
             Inl e \<Rightarrow> Inl e
           | Inr ob \<Rightarrow> Inr (ob, i, io_type ob))
      | RefObj ob \<Rightarrow>
          (case io_id ob of
             None \<Rightarrow> Inl (BadRequest msg)
           | Some i \<Rightarrow> if io_rev ob = None then Inl (BadRequest msg) else Inr (ob, i, io_type ob)))"

text \<open>The loops of lines 181-184 and 189-192, with their \<open>break\<close>.\<close>

fun found_in_extends :: "(string \<Rightarrow> string list) \<Rightarrow> string \<Rightarrow> string list \<Rightarrow> bool" where
  "found_in_extends ext t [] = False"
| "found_in_extends ext t (domt # rest) =
     (if t \<in> set (ext domt) then True else found_in_extends ext t rest)"

text \<open>The Association object of lines 202-206; every other field has its default.\<close>

definition new_association ::
  "string \<Rightarrow> string \<Rightarrow> string \<Rightarrow> string \<Rightarrow> string \<Rightarrow> string \<Rightarrow> document" where
  "new_association subject_id subject_type predicate object_id object_type now =
     \<lparr>doc_id = [], doc_rev = [], doc_type = ''Association'',
      doc_lcstate = None, doc_availability = None, doc_name = None, doc_alt_ids = None,
      doc_uirefid = None, doc_keywords = None, doc_attrs = [],
      doc_s = Some subject_id, doc_st = Some subject_type, doc_p = Some predicate,
      doc_o = Some object_id, doc_ot = Some object_type, doc_ts = Some now,
      doc_retired = False\<rparr>"

text \<open>
  \<open>create_association\<close>. \<open>new_id\<close> is the value of \<open>create_unique_association_id()\<close>
  and \<open>now\<close> that of \<open>get_ion_ts()\<close> for this call.
\<close>

definition create_association ::
  "registry \<Rightarrow> string \<Rightarrow> string \<Rightarrow> datastore \<Rightarrow> ref option \<Rightarrow> string option \<Rightarrow> ref option
     \<Rightarrow> (exn + string \<times> string) \<times> datastore" where
  "create_association reg new_id now ds subject predicate obj =
     (if \<not> (ref_truthy subject \<and> truthy predicate \<and> ref_truthy obj)
      then (Inl (BadRequest ''Association must have all elements set''), ds)
      else
        (case resolve ds (the subject) ''Subject id or rev not available'' of
           Inl e \<Rightarrow> (Inl e, ds)
         | Inr (subject_ob, subject_id, subject_type) \<Rightarrow>
        (case resolve ds (the obj) ''Object id or rev not available'' of
           Inl e \<Rightarrow> (Inl e, ds)
         | Inr (object_ob, object_id, object_type) \<Rightarrow>
        (case Predicates reg (the predicate) of
           None \<Rightarrow> (Inl (BadRequest ''Predicate unknown %s''), ds)
         | Some pt \<Rightarrow>
             if subject_type \<notin> set (pt_domain pt)
                \<and> \<not> found_in_extends (getextends reg) subject_type (pt_domain pt)
             then (Inl (BadRequest ''Illegal subject type %s for predicate %s''), ds)
             else if object_type \<notin> set (pt_range pt)
                \<and> \<not> found_in_extends (getextends reg) object_type (pt_range pt)
             then (Inl (BadRequest ''Illegal object type %s for predicate %s''), ds)
             else
               (case find_associations ds (Some (RefObj subject_ob)) predicate
                       (Some (RefObj object_ob)) False None None of
                  Inl e \<Rightarrow> (Inl e, ds)
                | Inr assoc_list \<Rightarrow>
                    if found_len assoc_list \<noteq> 0
                    then (Inl (BadRequest
                            ''Association between %s and %s with predicate %s already exists''), ds)
                    else create_doc ds
                           (new_association subject_id subject_type (the predicate)
                              object_id object_type now)
                           new_id)))))"

text \<open>
  \<open>delete_association\<close>. The argument is a 3-list of subject, predicate and object,
  or an association (object or id). \<open>delete\<close> has no return statement, so the call
  \<open>self.delete(aid)\<close> evaluates to Python's \<open>None\<close> (here: \<open>None\<close>), and
  \<open>success and self.delete(aid)\<close> calls \<open>delete\<close> only while \<open>success\<close> is still true.
\<close>

datatype assoc_arg = Triple "ref option" "string option" "ref option" | AssocRef ref

fun delete_each :: "datastore \<Rightarrow> bool option \<Rightarrow> string list \<Rightarrow> (exn + bool option) \<times> datastore" where
  "delete_each ds success [] = (Inr success, ds)"
| "delete_each ds success (aid # rest) =
     (if success = Some True
      then (case delete ds (RefStr aid) False of
              (Inl e, ds') \<Rightarrow> (Inl e, ds')
            | (Inr u, ds') \<Rightarrow> delete_each ds' None rest)
      else delete_each ds success rest)"

definition delete_association :: "datastore \<Rightarrow> assoc_arg \<Rightarrow> (exn + bool option) \<times> datastore" where
  "delete_association ds association =
     (case association of
        Triple subject predicate obj \<Rightarrow>
          (case find_associations ds subject predicate obj True None None of
             Inl e \<Rightarrow> (Inl e, ds)
           | Inr assoc_id_list \<Rightarrow> delete_each ds (Some True) (the_ids assoc_id_list))
      | AssocRef a \<Rightarrow>
          (case delete ds a False of
             (Inl e, ds') \<Rightarrow> (Inl e, ds')
           | (Inr u, ds') \<Rightarrow> (Inr None, ds')))"

section \<open>Resource queries (datastore.py, lines 451-643)\<close>

text \<open>
  Of the pagination arguments (\<open>limit\<close>, \<open>skip\<close>, \<open>descending\<close>) the \<open>limit\<close> is
  modelled (\<open>filt\<close> below, the \<open>filter\<close> of the source); \<open>skip\<close> and \<open>descending\<close> are left at their defaults.
  \<open>id_only\<close> is a boolean by type, so the checks of its type are not repeated.

  Each match is described by a dictionary built from the components of the row's
  key and the row's id; a key with too few components is an \<open>IndexError\<close>.
\<close>

type_synonym res_assoc = "(string \<times> kc) list"

type_synonym res_result = "(string, document option) found \<times> res_assoc list"

definition res_assocs_of :: "(string \<times> nat) list \<Rightarrow> kc list row list \<Rightarrow> exn + res_assoc list" where
  "res_assocs_of flds rows =
     (if \<exists>r \<in> set rows. \<exists>f \<in> set flds. length (row_key r) \<le> snd f then Inl IndexError
      else Inr (map (\<lambda>r. map (\<lambda>f. (fst f, row_key r ! snd f)) flds @ [(''id'', KStr (row_id r))])
                  rows))"

definition prepare_find_return ::
  "'k row list \<Rightarrow> res_assoc list \<Rightarrow> bool \<Rightarrow> (string, document option) found \<times> res_assoc list" where
  "prepare_find_return rows res_assocs id_only =
     (if id_only then (Ids (map row_id rows), res_assocs)
      else (Objs (map row_doc rows), res_assocs))"

definition find_res_by_type ::
  "datastore \<Rightarrow> string option \<Rightarrow> string option \<Rightarrow> bool \<Rightarrow> nat option \<Rightarrow> exn + res_result" where
  "find_res_by_type ds restype lcstate id_only filt =
     (if truthy lcstate then Inl (BadRequest ''lcstate not supported anymore in find_res_by_type'')
      else
        (let v = view resource_by_type (\<not> id_only) ds;
             rows = view_limit filt
                      (if truthy restype
                       then (let key = [KStr (the restype)]
                             in view_range v key (get_endkey key))
                       else v)
         in (case res_assocs_of [(''type'', 0), (''name'', 1)] rows of
               Inl e \<Rightarrow> Inl e
             | Inr res_assocs \<Rightarrow> Inr (prepare_find_return rows res_assocs id_only))))"

text \<open>Python's \<open>s.split(c, 1)\<close>: the string is cut at the first separator, if there is one.\<close>

fun split_1 :: "char \<Rightarrow> string \<Rightarrow> string list" where
  "split_1 c [] = [[]]"
| "split_1 c (x # xs) =
     (if x = c then [[], xs]
      else (case split_1 c xs of [] \<Rightarrow> [[x]] | w # ws \<Rightarrow> (x # w) # ws))"

text \<open>
  Lines 514-522 of \<open>find_res_by_lcstate\<close>: the warning, the state that is used and the
  start key of the scan. Unpacking \<open>lcstate,_ = ...\<close> needs exactly two parts.
\<close>

definition lcstate_key ::
  "registry \<Rightarrow> string \<Rightarrow> string option \<Rightarrow> exn + string list \<times> kc list" where
  "lcstate_key reg lcstate restype =
     (let split =
        (if CHR ''_'' \<in> set lcstate
         then (case split_1 CHR ''_'' lcstate of
                 [a, b] \<Rightarrow> Inr ([''Search for compound lcstate restricted to maturity: %s''], a)
               | _ \<Rightarrow> Inl ValueError)
         else Inr ([], lcstate))
      in case split of
           Inl e \<Rightarrow> Inl e
         | Inr (warned, lcstate') \<Rightarrow>
             (let key = (if lcstate' \<in> set (AVAILABILITY reg)
                         then [KNum 1, KStr lcstate'] else [KNum 0, KStr lcstate'])
              in Inr (warned, if truthy restype then key @ [KStr (the restype)] else key)))"

definition find_res_by_lcstate ::
  "registry \<Rightarrow> datastore \<Rightarrow> string \<Rightarrow> string option \<Rightarrow> bool \<Rightarrow> nat option
     \<Rightarrow> (exn + res_result) \<times> datastore" where
  "find_res_by_lcstate reg ds lcstate restype id_only filt =
     (case lcstate_key reg lcstate restype of
        Inl e \<Rightarrow> (Inl e, ds)
      | Inr (warned, key) \<Rightarrow>
          (let ds' = ds\<lparr>warnings := warnings ds @ warned\<rparr>;
               rows = view_limit filt
                        (view_range (view resource_by_lcstate (\<not> id_only) ds) key (get_endkey key))
           in (case res_assocs_of [(''lcstate'', 1), (''type'', 2), (''name'', 3)] rows of
                 Inl e \<Rightarrow> (Inl e, ds')
               | Inr res_assocs \<Rightarrow> (Inr (prepare_find_return rows res_assocs id_only), ds'))))"

definition find_res_by_name ::
  "datastore \<Rightarrow> string \<Rightarrow> string option \<Rightarrow> bool \<Rightarrow> nat option \<Rightarrow> exn + res_result" where
  "find_res_by_name ds name restype id_only filt =
     (let key = (if truthy restype then [KStr name, KStr (the restype)] else [KStr name]);
          rows = view_limit filt
                   (view_range (view resource_by_name (\<not> id_only) ds) key (get_endkey key))
      in (case res_assocs_of [(''name'', 0), (''type'', 1)] rows of
            Inl e \<Rightarrow> Inl e
          | Inr res_assocs \<Rightarrow> Inr (prepare_find_return rows res_assocs id_only)))"

definition find_res_by_keyword ::
  "datastore \<Rightarrow> string \<Rightarrow> string option \<Rightarrow> bool \<Rightarrow> nat option \<Rightarrow> exn + res_result" where
  "find_res_by_keyword ds keyword restype id_only filt =
     (if keyword = [] then Inl (BadRequest ''Argument keyword illegal'')
      else
        (let key = (if truthy restype then [KStr keyword, KStr (the restype)] else [KStr keyword]);
             rows = view_limit filt
                      (view_range (view resource_by_keyword (\<not> id_only) ds) key (get_endkey key))
         in (case res_assocs_of [(''keyword'', 0), (''type'', 1)] rows of
               Inl e \<Rightarrow> Inl e
             | Inr res_assocs \<Rightarrow> Inr (prepare_find_return rows res_assocs id_only))))"

definition find_res_by_nested_type ::
  "datastore \<Rightarrow> string \<Rightarrow> string option \<Rightarrow> bool \<Rightarrow> nat option \<Rightarrow> exn + res_result" where
  "find_res_by_nested_type ds nested_type restype id_only filt =
     (if nested_type = [] then Inl (BadRequest ''Argument nested_type illegal'')
      else
        (let key = (if truthy restype then [KStr nested_type, KStr (the restype)]
                    else [KStr nested_type]);
             rows = view_limit filt
                      (view_range (view resource_by_nestedtype (\<not> id_only) ds) key (get_endkey key))
         in (case res_assocs_of [(''nested_type'', 0), (''type'', 1)] rows of
               Inl e \<Rightarrow> Inl e
             | Inr res_assocs \<Rightarrow> Inr (prepare_find_return rows res_assocs id_only))))"

definition find_res_by_attribute ::
  "datastore \<Rightarrow> string \<Rightarrow> string \<Rightarrow> string option \<Rightarrow> bool \<Rightarrow> nat option \<Rightarrow> exn + res_result" where
  "find_res_by_attribute ds restype attr_name attr_value id_only filt =
     (if attr_name = [] then Inl (BadRequest ''Argument attr_name illegal'')
      else
        (let key = (if truthy attr_value then [KStr restype, KStr attr_name, KStr (the attr_value)]
                    else [KStr restype, KStr attr_name]);
             rows = view_limit filt
                      (view_range (view resource_by_attribute (\<not> id_only) ds) key (get_endkey key))
         in (case res_assocs_of [(''type'', 0), (''attr_name'', 1), (''attr_value'', 2)] rows of
               Inl e \<Rightarrow> Inl e
             | Inr res_assocs \<Rightarrow> Inr (prepare_find_return rows res_assocs id_only))))"

text \<open>
  \<open>find_res_by_alternative_id\<close>. With a namespace but no id the whole index is
  scanned and the rows are filtered by their namespace afterwards. The ids returned
  with \<open>id_only\<close> are read back from the dictionaries.
\<close>

definition find_res_by_alternative_id ::
  "datastore \<Rightarrow> string option \<Rightarrow> string option \<Rightarrow> bool \<Rightarrow> nat option \<Rightarrow> exn + res_result" where
  "find_res_by_alternative_id ds alt_id alt_id_ns id_only filt =
     (let key = (if truthy alt_id
                 then (case alt_id_ns of
                         None \<Rightarrow> [KStr (the alt_id)]
                       | Some ns \<Rightarrow> [KStr (the alt_id), KStr ns])
                 else []);
          rows = view_limit filt
                   (view_range (view resource_by_altid (\<not> id_only) ds) key (get_endkey key))
      in if \<exists>r \<in> set rows. length (row_key r) \<le> 1 then Inl IndexError
         else
           (let kept = (if truthy alt_id_ns \<and> \<not> truthy alt_id
                        then filter (\<lambda>r. row_key r ! 1 = KStr (the alt_id_ns)) rows
                        else rows)
            in (case res_assocs_of [(''alt_id'', 0), (''alt_id_ns'', 1)] kept of
                  Inl e \<Rightarrow> Inl e
                | Inr res_assocs \<Rightarrow>
                    if id_only then Inr (Ids (map row_id kept), res_assocs)
                    else Inr (Objs (map row_doc kept), res_assocs))))"

text \<open>
  The dispatcher \<open>find_resources_ext\<close>. \<open>restype\<close>, \<open>lcstate\<close> and \<open>name\<close> default to
  the empty string, the other qualifiers to \<open>None\<close>. The condition of the last
  \<open>elif\<close> (line 477) holds whenever it is reached, so it is the final \<open>else\<close> here.
\<close>

definition find_resources_ext ::
  "registry \<Rightarrow> datastore \<Rightarrow> string \<Rightarrow> string \<Rightarrow> string \<Rightarrow> string option \<Rightarrow> string option
     \<Rightarrow> string option \<Rightarrow> string option \<Rightarrow> string option \<Rightarrow> string option \<Rightarrow> nat option \<Rightarrow> bool
     \<Rightarrow> (exn + res_result) \<times> datastore" where
  "find_resources_ext reg ds restype lcstate name keyword nested_type attr_name attr_value
       alt_id alt_id_ns limit id_only =
     (if name \<noteq> [] then
        (if lcstate \<noteq> [] then (Inl (BadRequest ''find by name does not support lcstate''), ds)
         else (find_res_by_name ds name (Some restype) id_only limit, ds))
      else if truthy keyword then
        (find_res_by_keyword ds (the keyword) (Some restype) id_only limit, ds)
      else if truthy alt_id \<or> truthy alt_id_ns then
        (find_res_by_alternative_id ds alt_id alt_id_ns id_only limit, ds)
      else if truthy nested_type then
        (find_res_by_nested_type ds (the nested_type) (Some restype) id_only limit, ds)
      else if restype \<noteq> [] \<and> truthy attr_name then
        (find_res_by_attribute ds restype (the attr_name) attr_value id_only limit, ds)
      else if restype \<noteq> [] \<and> lcstate \<noteq> [] then
        find_res_by_lcstate reg ds lcstate (Some restype) id_only limit
      else if restype \<noteq> [] then
        (find_res_by_type ds (Some restype) (Some lcstate) id_only limit, ds)
      else if lcstate \<noteq> [] then
        find_res_by_lcstate reg ds lcstate (Some restype) id_only limit
      else (find_res_by_type ds None None id_only limit, ds))"

definition find_resources ::
  "registry \<Rightarrow> datastore \<Rightarrow> string \<Rightarrow> string \<Rightarrow> string \<Rightarrow> bool \<Rightarrow> (exn + res_result) \<times> datastore" where
  "find_resources reg ds restype lcstate name id_only =
     find_resources_ext reg ds restype lcstate name None None None None None None None id_only"

section \<open>Row projection (datastore.py, lines 720-778)\<close>

text \<open>
  What the store hands back. A \<open>ViewResults\<close> fetches its rows when they are first
  asked for: \<open>RViewResults rows\<close> is one whose fetch gives \<open>rows\<close>, \<open>RViewFailed e\<close>
  one whose fetch raises \<open>e\<close>. A \<open>Row\<close> is a mapping with the keys \<open>id\<close>, \<open>key\<close>,
  \<open>value\<close> and \<open>doc\<close>, each present or absent. A dictionary is a list of items.
\<close>

datatype raw =
    RNone
  | RBool bool
  | RInt int
  | RStr string
  | RList "raw list"
  | RDict "(string \<times> raw) list"
  | RRow "raw option" "raw option" "raw option" "raw option"
  | RViewResults "raw list"
  | RViewFailed couch_exn

text \<open>
  The projected value: a raw value handed on as it is, a list, a dictionary, or the
  IonObject made from a document.
\<close>

text \<open>
  Modelled from the spec: the deserializer (\<open>IonObjectDeserializer\<close>, not part of the
  sources at hand) converts a document to a typed domain object. It is a parameter
  of the projection: \<open>deserialize items\<close> is the object it makes from the items of a
  document, or the exception it raises; \<open>IonObj\<close> holds the object.
\<close>

datatype 'o parsed =
    Unchanged raw
  | PList "'o parsed list"
  | PDict "(string \<times> 'o parsed) list"
  | IonObj 'o

definition item :: "string \<Rightarrow> 'a option \<Rightarrow> (string \<times> 'a) list" where
  "item k v = (case v of None \<Rightarrow> [] | Some x \<Rightarrow> [(k, x)])"

text \<open>
  \<open>_parse_results\<close>. The \<open>try\<close> of lines 730-733 covers the fetch of the rows and
  their projection; its handler turns a \<open>ResourceNotFound\<close> into a \<open>BadRequest\<close>, and
  any other exception passes through it.
\<close>

fun parse_results :: "((string \<times> raw) list \<Rightarrow> exn + 'o) \<Rightarrow> raw \<Rightarrow> exn + 'o parsed"
  and parse_elements :: "((string \<times> raw) list \<Rightarrow> exn + 'o) \<Rightarrow> raw list \<Rightarrow> exn + 'o parsed list"
  and parse_items ::
    "((string \<times> raw) list \<Rightarrow> exn + 'o) \<Rightarrow> (string \<times> raw) list \<Rightarrow> exn + (string \<times> 'o parsed) list"
  and parse_field :: "((string \<times> raw) list \<Rightarrow> exn + 'o) \<Rightarrow> raw option \<Rightarrow> exn + 'o parsed option"
where
  "parse_results deserialize (RViewFailed e) =
     (if e = ResourceNotFound then Inl (BadRequest ''The desired resource does not exist.'')
      else Inl (CouchError e))"
| "parse_results deserialize (RViewResults rows) =
     (case parse_elements deserialize rows of
        Inl e \<Rightarrow>
          (if e = CouchError ResourceNotFound
           then Inl (BadRequest ''The desired resource does not exist.'')
           else Inl e)
      | Inr ret \<Rightarrow> Inr (PList ret))"
| "parse_results deserialize (RRow i k v d) =
     (case parse_field deserialize k of
        Inl e \<Rightarrow> Inl e
      | Inr None \<Rightarrow> Inl (KeyError ''key'')
      | Inr (Some k') \<Rightarrow>
          (case parse_field deserialize v of
             Inl e \<Rightarrow> Inl e
           | Inr None \<Rightarrow> Inl (KeyError ''value'')
           | Inr (Some v') \<Rightarrow>
               (case parse_field deserialize d of
                  Inl e \<Rightarrow> Inl e
                | Inr d' \<Rightarrow>
                    Inr (PDict (item ''id'' (map_option Unchanged i) @ [(''key'', k'), (''value'', v')]
                                @ item ''doc'' d')))))"
| "parse_results deserialize (RList xs) =
     (case parse_elements deserialize xs of Inl e \<Rightarrow> Inl e | Inr ret \<Rightarrow> Inr (PList ret))"
| "parse_results deserialize (RDict items) =
     (if ''_id'' \<in> set (map fst items)
      then (case deserialize items of Inl e \<Rightarrow> Inl e | Inr ob \<Rightarrow> Inr (IonObj ob))
      else (case parse_items deserialize items of Inl e \<Rightarrow> Inl e | Inr ret \<Rightarrow> Inr (PDict ret)))"
| "parse_results deserialize RNone = Inr (Unchanged RNone)"
| "parse_results deserialize (RBool b) = Inr (Unchanged (RBool b))"
| "parse_results deserialize (RInt n) = Inr (Unchanged (RInt n))"
| "parse_results deserialize (RStr x) = Inr (Unchanged (RStr x))"
| "parse_elements deserialize [] = Inr []"
| "parse_elements deserialize (element # rest) =
     (case parse_results deserialize element of
        Inl e \<Rightarrow> Inl e
      | Inr x \<Rightarrow>
          (case parse_elements deserialize rest of Inl e \<Rightarrow> Inl e | Inr xs \<Rightarrow> Inr (x # xs)))"
| "parse_items deserialize [] = Inr []"
| "parse_items deserialize (kv # rest) =
     (case parse_results deserialize (snd kv) of
        Inl e \<Rightarrow> Inl e
      | Inr x \<Rightarrow>
          (case parse_items deserialize rest of Inl e \<Rightarrow> Inl e | Inr xs \<Rightarrow> Inr ((fst kv, x) # xs)))"
| "parse_field deserialize None = Inr None"
| "parse_field deserialize (Some x) =
     (case parse_results deserialize x of Inl e \<Rightarrow> Inl e | Inr y \<Rightarrow> Inr (Some y))"

section \<open>Vocabulary of the properties\<close>

text \<open>
  A resource, as the views see it (views.py, line 40: ``Resources all have a type,
  life cycle state and name''), and a resource that is not retired.
\<close>

definition is_resource :: "document \<Rightarrow> bool" where
  "is_resource d = (doc_type d \<noteq> [] \<and> doc_lcstate d \<noteq> None \<and> doc_name d \<noteq> None)"

definition non_retired :: "document \<Rightarrow> bool" where
  "non_retired d = (doc_lcstate d \<noteq> Some ''RETIRED'')"

text \<open>The dictionary that \<open>find_res_by_type\<close> builds for a resource.\<close>

definition by_type_entry :: "document \<Rightarrow> res_assoc" where
  "by_type_entry d =
     [(''type'', KStr (doc_type d)), (''name'', KStr (take 200 (the (doc_name d)))),
      (''id'', KStr (doc_id d))]"

text \<open>The resources of a list, in the order of the by-type index: type, name cut to 200 characters, id.\<close>

definition by_type_order :: "document list \<Rightarrow> document list" where
  "by_type_order ds =
     sort_key (\<lambda>d. ([KStr (doc_type d), KStr (take 200 (the (doc_name d)))], doc_id d)) ds"

text \<open>What \<open>find_res_by_type\<close> returns for a list of resources: their ids or the resources, and their dictionaries.\<close>

definition by_type_result :: "bool \<Rightarrow> document list \<Rightarrow> res_result" where
  "by_type_result id_only ds =
     (if id_only then Ids (map doc_id ds) else Objs (map Some ds), map by_type_entry ds)"

text \<open>An association that the association views index: one that is not retired.\<close>

definition live_assoc :: "document \<Rightarrow> bool" where
  "live_assoc d = (doc_type d = ''Association'' \<and> \<not> doc_retired d)"

text \<open>
  The type rule of a predicate in the words of the spec: a concrete type is permitted
  by a set of allowed types when it is one of them, or extends one of them.
\<close>

definition type_permitted :: "registry \<Rightarrow> string \<Rightarrow> string list \<Rightarrow> bool" where
  "type_permitted reg t allowed =
     (t \<in> set allowed \<or> (\<exists>d \<in> set allowed. t \<in> set (getextends reg d)))"

text \<open>The triple of an association, and the associations of a store that are not retired.\<close>

definition triple :: "document \<Rightarrow> string option \<times> string option \<times> string option" where
  "triple d = (doc_s d, doc_p d, doc_o d)"

definition live_assocs :: "datastore \<Rightarrow> document list" where
  "live_assocs ds = filter live_assoc (docs ds)"

text \<open>At most one association that is not retired per triple.\<close>

definition one_per_triple :: "datastore \<Rightarrow> bool" where
  "one_per_triple ds = distinct (map triple (live_assocs ds))"

text \<open>
  The states reachable from a state by operations of the Association Manager, one
  after the other: creating an association, deleting associations, and deleting a
  document with or without its associations. Each operation may also fail; the
  state it leaves is the next state either way.
\<close>

inductive reachable :: "registry \<Rightarrow> datastore \<Rightarrow> datastore \<Rightarrow> bool" for reg :: registry and ds0 :: datastore where
  start: "reachable reg ds0 ds0"
| created: "reachable reg ds0 ds \<Longrightarrow>
     reachable reg ds0 (snd (create_association reg new_id now ds subject predicate obj))"
| deleted: "reachable reg ds0 ds \<Longrightarrow> reachable reg ds0 (snd (delete_association ds association))"
| removed: "reachable reg ds0 ds \<Longrightarrow> reachable reg ds0 (snd (delete_doc ds doc del_associations))"


text \<open>An association that refers to a document id on either side.\<close>

definition refers_to :: "string \<Rightarrow> document \<Rightarrow> bool" where
  "refers_to i d = (live_assoc d \<and> (doc_s d = Some i \<or> doc_o d = Some i))"







section \<open>Example data\<close>

text \<open>
  The resources of the spec's range-scan scenario, two associations between them,
  and a registry with one predicate.
\<close>

definition resource :: "string \<Rightarrow> string \<Rightarrow> string \<Rightarrow> string \<Rightarrow> document" where
  "resource i t lc n =
     \<lparr>doc_id = i, doc_rev = ''1'', doc_type = t,
      doc_lcstate = Some lc, doc_availability = Some ''PRIVATE'', doc_name = Some n,
      doc_alt_ids = None, doc_uirefid = None, doc_keywords = None, doc_attrs = [],
      doc_s = None, doc_st = None, doc_p = None, doc_o = None, doc_ot = None, doc_ts = None,
      doc_retired = False\<rparr>"

definition ex_resources :: datastore where
  "ex_resources =
     \<lparr>docs = [resource ''r3'' ''B'' ''DRAFT'' ''alpha'', resource ''r2'' ''A'' ''DEPLOYED'' ''beta'',
              resource ''r1'' ''A'' ''DRAFT'' ''alpha''],
      warnings = []\<rparr>"

definition ex_registry :: registry where
  "ex_registry =
     \<lparr>Predicates = (\<lambda>p. if p = ''hasPart''
                          then Some \<lparr>pt_domain = [''A''], pt_range = [''B'']\<rparr> else None),
      getextends = (\<lambda>t. if t = ''A'' then [''A1''] else []),
      AVAILABILITY = [''PRIVATE'', ''DISCOVERABLE'', ''AVAILABLE'']\<rparr>"

definition association :: "string \<Rightarrow> string \<Rightarrow> string \<Rightarrow> string \<Rightarrow> string \<Rightarrow> string \<Rightarrow> document" where
  "association i subject_id subject_type predicate object_id object_type =
     (new_association subject_id subject_type predicate object_id object_type ''0'')
       \<lparr>doc_id := i, doc_rev := ''1''\<rparr>"

definition ex_graph :: datastore where
  "ex_graph =
     \<lparr>docs = docs ex_resources @
              [association ''a1'' ''r1'' ''A'' ''hasPart'' ''r3'' ''B'',
               association ''a2'' ''r2'' ''A'' ''hasPart'' ''r3'' ''B'',
               association ''a3'' ''r1'' ''A'' ''hasOwner'' ''r2'' ''A''],
      warnings = []\<rparr>"

text \<open>A store with a dangling association: its subject \<open>gone\<close> is not in the store.\<close>

definition ex_dangling :: datastore where
  "ex_dangling =
     \<lparr>docs = [resource ''r3'' ''B'' ''DRAFT'' ''alpha'',
              association ''a1'' ''gone'' ''A'' ''hasPart'' ''r3'' ''B''],
      warnings = []\<rparr>"


text \<open>A store with a retired association that has \<open>r3\<close> as its object.\<close>

definition ex_retired :: datastore where
  "ex_retired =
     \<lparr>docs = [resource ''r3'' ''B'' ''DRAFT'' ''alpha'',
              (association ''a1'' ''r1'' ''A'' ''hasPart'' ''r3'' ''B'')\<lparr>doc_retired := True\<rparr>],
      warnings = []\<rparr>"


section \<open>Lemmas\<close>

lemma kopt_eq_KStr: "kopt v = KStr x \<longleftrightarrow> v = Some x"
  by (cases v) (auto simp: kopt_def)

lemma kopt_not_End: "kopt v \<noteq> KEnd"
  by (cases v) (auto simp: kopt_def)

lemma kc_lt_End: "k \<noteq> KEnd \<Longrightarrow> k < KEnd"
  by (cases k) (auto simp: less_kc_def)

lemma prefix_range:
  "KEnd \<notin> set k \<Longrightarrow> (pre \<le> k \<and> k \<le> get_endkey pre) = (take (length pre) k = pre)"
proof (induction pre arbitrary: k)
  case Nil
  then show ?case by (cases k) (auto simp: get_endkey_def kc_lt_End)
next
  case (Cons a pre)
  show ?case
  proof (cases k)
    case Nil
    then show ?thesis by (simp add: get_endkey_def)
  next
    case (Cons b k')
    with Cons.prems have "KEnd \<notin> set k'" by simp
    from Cons.IH[OF this] show ?thesis using Cons
      by (auto simp: get_endkey_def)
  qed
qed

lemma set_view:
  "set (view mapf inc ds) = (\<Union>d \<in> set (docs ds). set (emit_rows mapf inc d))"
  by (simp add: view_def)

lemma set_view_limit: "set (view_limit l rows) \<subseteq> set rows"
  by (auto simp: view_limit_def split: option.splits dest: in_set_takeD)

lemma set_view_range: "set (view_range rows a b) \<subseteq> set rows"
  by (auto simp: view_range_def)

lemma scan_subset:
  "r \<in> set (view_limit l (view_range (view mapf inc ds) a b)) \<Longrightarrow> r \<in> set (view mapf inc ds)"
proof -
  assume "r \<in> set (view_limit l (view_range (view mapf inc ds) a b))"
  then have "r \<in> set (view_range (view mapf inc ds) a b)"
    using set_view_limit by (rule subsetD[rotated])
  then show ?thesis
    using set_view_range by (rule subsetD[rotated])
qed

lemma view_key_length:
  assumes "\<And>d k v. (k, v) \<in> set (mapf d) \<Longrightarrow> length k = n"
    and "r \<in> set (view mapf inc ds)"
  shows "length (row_key r) = n"
  using assms by (auto simp: set_view emit_rows_def row_of_def)

lemma by_type_len: "r \<in> set (view resource_by_type inc ds) \<Longrightarrow> length (row_key r) = 2"
  by (auto simp: set_view emit_rows_def row_of_def resource_by_type_def split: if_splits)

lemma by_lcstate_len: "r \<in> set (view resource_by_lcstate inc ds) \<Longrightarrow> length (row_key r) = 4"
  by (auto simp: set_view emit_rows_def row_of_def resource_by_lcstate_def split: if_splits)

lemma by_name_len: "r \<in> set (view resource_by_name inc ds) \<Longrightarrow> length (row_key r) = 2"
  by (auto simp: set_view emit_rows_def row_of_def resource_by_name_def split: if_splits)

lemma by_keyword_len: "r \<in> set (view resource_by_keyword inc ds) \<Longrightarrow> length (row_key r) = 2"
  by (auto simp: set_view emit_rows_def row_of_def resource_by_keyword_def split: if_splits)

lemma by_nestedtype_len: "r \<in> set (view resource_by_nestedtype inc ds) \<Longrightarrow> length (row_key r) = 2"
  by (auto simp: set_view emit_rows_def row_of_def resource_by_nestedtype_def split: if_splits)

lemma by_attribute_cases:
  "resource_by_attribute d = [] \<or> (\<exists>a b c. resource_by_attribute d = [([a, b, c], None)])"
  by (simp add: resource_by_attribute_def split: option.split)

lemma by_attribute_emit_len: "kv \<in> set (resource_by_attribute d) \<Longrightarrow> length (fst kv) = 3"
  using by_attribute_cases[of d] by auto

lemma by_attribute_len: "r \<in> set (view resource_by_attribute inc ds) \<Longrightarrow> length (row_key r) = 3"
  using by_attribute_emit_len by (fastforce simp: set_view emit_rows_def row_of_def)

lemma by_altid_len: "r \<in> set (view resource_by_altid inc ds) \<Longrightarrow> length (row_key r) = 2"
  by (auto simp: set_view emit_rows_def row_of_def resource_by_altid_def altid_emit_def Let_def split: if_splits)

lemma res_assocs_of_ok:
  assumes "\<And>r. r \<in> set rows \<Longrightarrow> length (row_key r) = n" and "\<forall>f \<in> set flds. snd f < n"
  shows "res_assocs_of flds rows =
           Inr (map (\<lambda>r. map (\<lambda>f. (fst f, row_key r ! snd f)) flds @ [(''id'', KStr (row_id r))]) rows)"
  using assms by (auto simp: res_assocs_of_def)

lemma split_1_first:
  "c \<in> set s \<Longrightarrow> split_1 c s = [takeWhile (\<lambda>x. x \<noteq> c) s, tl (dropWhile (\<lambda>x. x \<noteq> c) s)]"
  by (induction s) auto

lemma scan_len:
  assumes "\<And>r. r \<in> set (view mapf inc ds) \<Longrightarrow> length (row_key r) = n"
  shows "r \<in> set (view_limit l (view_range (view mapf inc ds) a b)) \<Longrightarrow> length (row_key r) = n"
proof -
  assume "r \<in> set (view_limit l (view_range (view mapf inc ds) a b))"
  then have "r \<in> set (view mapf inc ds)" by (rule scan_subset)
  then show ?thesis by (rule assms)
qed

lemma limit_len:
  assumes "\<And>r. r \<in> set rows \<Longrightarrow> length (row_key r) = n"
  shows "r \<in> set (view_limit l rows) \<Longrightarrow> length (row_key r) = n"
proof -
  assume "r \<in> set (view_limit l rows)"
  then have "r \<in> set rows" using set_view_limit by (rule subsetD[rotated])
  then show ?thesis by (rule assms)
qed


lemma find_res_by_type_ok:
  "\<not> truthy lcstate \<Longrightarrow> \<exists>res. find_res_by_type ds restype lcstate id_only filt = Inr res"
  by (simp add: find_res_by_type_def Let_def
      res_assocs_of_ok[where n=2, OF scan_len[OF by_type_len]]
      res_assocs_of_ok[where n=2, OF limit_len[OF by_type_len]])

lemma find_res_by_name_ok: "\<exists>res. find_res_by_name ds name restype id_only filt = Inr res"
  by (simp add: find_res_by_name_def Let_def
      res_assocs_of_ok[where n=2, OF scan_len[OF by_name_len]])

lemma find_res_by_keyword_ok:
  "keyword \<noteq> [] \<Longrightarrow> \<exists>res. find_res_by_keyword ds keyword restype id_only filt = Inr res"
  by (simp add: find_res_by_keyword_def Let_def
      res_assocs_of_ok[where n=2, OF scan_len[OF by_keyword_len]])

lemma find_res_by_nested_type_ok:
  "nested_type \<noteq> [] \<Longrightarrow> \<exists>res. find_res_by_nested_type ds nested_type restype id_only filt = Inr res"
  by (simp add: find_res_by_nested_type_def Let_def
      res_assocs_of_ok[where n=2, OF scan_len[OF by_nestedtype_len]])

lemma find_res_by_attribute_ok:
  "attr_name \<noteq> [] \<Longrightarrow> \<exists>res. find_res_by_attribute ds restype attr_name attr_value id_only filt = Inr res"
  by (simp add: find_res_by_attribute_def Let_def
      res_assocs_of_ok[where n=3, OF scan_len[OF by_attribute_len]])

lemma lcstate_key_ok: "\<exists>w k. lcstate_key reg lcstate restype = Inr (w, k)"
  by (simp add: lcstate_key_def Let_def split_1_first)

lemma find_res_by_lcstate_ok:
  "\<exists>res. fst (find_res_by_lcstate reg ds lcstate restype id_only filt) = Inr res"
proof -
  obtain w k where "lcstate_key reg lcstate restype = Inr (w, k)"
    using lcstate_key_ok by blast
  then show ?thesis
    by (simp add: find_res_by_lcstate_def Let_def
      res_assocs_of_ok[where n=4, OF scan_len[OF by_lcstate_len]])
qed

lemma res_assocs_of_ok2:
  assumes "\<And>r. r \<in> set rows \<Longrightarrow> length (row_key r) = 2"
  shows "res_assocs_of [(''alt_id'', 0), (''alt_id_ns'', 1)] (filter P rows) =
      Inr (map (\<lambda>r. map (\<lambda>f. (fst f, row_key r ! snd f)) [(''alt_id'', 0), (''alt_id_ns'', 1)] @ [(''id'', KStr (row_id r))]) (filter P rows))"
  by (rule res_assocs_of_ok[where n=2]) (simp_all add: assms)

lemma find_res_by_alternative_id_ok:
  "\<exists>res. find_res_by_alternative_id ds alt_id alt_id_ns id_only filt = Inr res"
proof -
  define key where "key = (if truthy alt_id
                 then (case alt_id_ns of
                         None \<Rightarrow> [KStr (the alt_id)]
                       | Some ns \<Rightarrow> [KStr (the alt_id), KStr ns])
                 else [])"
  define rows where "rows = view_limit filt (view_range (view resource_by_altid (\<not> id_only) ds) key (get_endkey key))"
  have len: "\<And>r. r \<in> set rows \<Longrightarrow> length (row_key r) = 2"
    unfolding rows_def by (rule scan_len[OF by_altid_len])
  have a: "\<not> (\<exists>r \<in> set rows. length (row_key r) \<le> 1)"
  proof
    assume "\<exists>r \<in> set rows. length (row_key r) \<le> 1"
    then obtain r where "r \<in> set rows" "length (row_key r) \<le> 1" by (rule bexE)
    with len[of r] show False by simp
  qed
  have b: "\<And>P. res_assocs_of [(''alt_id'', 0), (''alt_id_ns'', 1)] (filter P rows) =
      Inr (map (\<lambda>r. map (\<lambda>f. (fst f, row_key r ! snd f)) [(''alt_id'', 0), (''alt_id_ns'', 1)] @ [(''id'', KStr (row_id r))]) (filter P rows))"
    by (rule res_assocs_of_ok2[OF len])
  have c: "res_assocs_of [(''alt_id'', 0), (''alt_id_ns'', 1)] rows =
      Inr (map (\<lambda>r. map (\<lambda>f. (fst f, row_key r ! snd f)) [(''alt_id'', 0), (''alt_id_ns'', 1)] @ [(''id'', KStr (row_id r))]) rows)"
    using b[of "\<lambda>r. True"] by simp
  have "find_res_by_alternative_id ds alt_id alt_id_ns id_only filt =
     (if \<exists>r \<in> set rows. length (row_key r) \<le> 1 then Inl IndexError
         else
           (let kept = (if truthy alt_id_ns \<and> \<not> truthy alt_id
                        then filter (\<lambda>r. row_key r ! 1 = KStr (the alt_id_ns)) rows
                        else rows)
            in (case res_assocs_of [(''alt_id'', 0), (''alt_id_ns'', 1)] kept of
                  Inl e \<Rightarrow> Inl e
                | Inr res_assocs \<Rightarrow>
                    if id_only then Inr (Ids (map row_id kept), res_assocs)
                    else Inr (Objs (map row_doc kept), res_assocs))))"
    unfolding find_res_by_alternative_id_def rows_def key_def Let_def by (rule refl)
  then show ?thesis
    by (simp only: a b c if_False Let_def sum.case split: if_split) simp
qed

lemma insort_key_map:
  "insort_key f (R x) (map R ys) = map R (insort_key (\<lambda>y. f (R y)) x ys)"
  by (induction ys) auto

lemma sort_key_map: "sort_key f (map R xs) = map R (sort_key (\<lambda>y. f (R y)) xs)"
  by (induction xs) (simp_all add: insort_key_map)

lemma concat_single:
  assumes "\<And>d. E d = (if P d then [R d] else [])"
  shows "concat (map E ds) = map R (filter P ds)"
  by (induction ds) (simp_all add: assms)

lemma view_single:
  assumes "\<And>d. mapf d = (if P d then [(K d, V d)] else [])"
  shows "view mapf inc ds =
           map (\<lambda>d. row_of inc d (K d, V d)) (sort_key (\<lambda>d. (K d, doc_id d)) (filter P (docs ds)))"
proof -
  have "\<And>d. emit_rows mapf inc d = (if P d then [row_of inc d (K d, V d)] else [])"
    by (simp add: emit_rows_def assms)
  then have "concat (map (emit_rows mapf inc) (docs ds)) = map (\<lambda>d. row_of inc d (K d, V d)) (filter P (docs ds))"
    by (rule concat_single)
  then show ?thesis
    by (simp add: view_def sort_key_map row_of_def)
qed

lemma view_range_single:
  assumes "\<And>d. mapf d = (if P d then [(K d, V d)] else [])"
    and "\<And>d. (P d \<and> a \<le> K d \<and> K d \<le> b) = Q d"
  shows "view_range (view mapf inc ds) a b =
           map (\<lambda>d. row_of inc d (K d, V d)) (sort_key (\<lambda>d. (K d, doc_id d)) (filter Q (docs ds)))"
proof -
  have "view_range (view mapf inc ds) a b =
      map (\<lambda>d. row_of inc d (K d, V d))
        (filter (\<lambda>d. a \<le> K d \<and> K d \<le> b)
           (sort_key (\<lambda>d. (K d, doc_id d)) (filter P (docs ds))))"
    by (simp add: view_single[OF assms(1)] view_range_def filter_map comp_def row_of_def)
  also have "filter (\<lambda>d. a \<le> K d \<and> K d \<le> b)
           (sort_key (\<lambda>d. (K d, doc_id d)) (filter P (docs ds))) =
      sort_key (\<lambda>d. (K d, doc_id d)) (filter Q (docs ds))"
    by (simp add: filter_sort conj_commute assms(2))
  finally show ?thesis .
qed

lemma by_type_single:
  "resource_by_type d =
     (if is_resource d \<and> non_retired d
      then [([KStr (doc_type d), KStr (take 200 (the (doc_name d)))], None)] else [])"
  by (auto simp: resource_by_type_def is_resource_def non_retired_def substring_0_200_def)

lemma by_type_rows_all:
  "view resource_by_type inc ds =
     map (\<lambda>d. row_of inc d ([KStr (doc_type d), KStr (take 200 (the (doc_name d)))], None))
       (by_type_order (filter (\<lambda>d. is_resource d \<and> non_retired d) (docs ds)))"
  unfolding by_type_order_def
  by (rule view_single[OF by_type_single])

lemma by_type_rows_range:
  "view_range (view resource_by_type inc ds) [KStr t] (get_endkey [KStr t]) =
     map (\<lambda>d. row_of inc d ([KStr (doc_type d), KStr (take 200 (the (doc_name d)))], None))
       (by_type_order (filter (\<lambda>d. is_resource d \<and> doc_type d = t \<and> non_retired d) (docs ds)))"
proof -
  have eq: "\<And>d. ((is_resource d \<and> non_retired d) \<and> [KStr t] \<le> [KStr (doc_type d), KStr (take 200 (the (doc_name d)))]
             \<and> [KStr (doc_type d), KStr (take 200 (the (doc_name d)))] \<le> get_endkey [KStr t])
        = (is_resource d \<and> doc_type d = t \<and> non_retired d)"
    by (subst prefix_range) auto
  show ?thesis
    unfolding by_type_order_def
    by (rule view_range_single[OF by_type_single eq])
qed

lemma view_limit_None: "view_limit None rows = rows"
  by (simp add: view_limit_def)

lemma by_type_assocs:
  "res_assocs_of [(''type'', 0), (''name'', 1)]
      (map (\<lambda>d. row_of inc d ([KStr (doc_type d), KStr (take 200 (the (doc_name d)))], None)) L)
    = Inr (map by_type_entry L)"
  by (subst res_assocs_of_ok[where n=2]) (auto simp: row_of_def by_type_entry_def)

lemma by_type_return:
  "prepare_find_return
      (map (\<lambda>d. row_of (\<not> id_only) d ([KStr (doc_type d), KStr (take 200 (the (doc_name d)))], None)) L)
      (map by_type_entry L) id_only = by_type_result id_only L"
  by (simp add: prepare_find_return_def by_type_result_def row_of_def comp_def)

lemma find_res_by_type_typed:
  assumes "restype \<noteq> []"
  shows "find_res_by_type ds (Some restype) None id_only None =
     Inr (by_type_result id_only
       (by_type_order (filter (\<lambda>d. is_resource d \<and> doc_type d = restype \<and> non_retired d) (docs ds))))"
  unfolding find_res_by_type_def Let_def view_limit_None
  by (simp only: truthy.simps assms if_True if_False not_False_eq_True option.sel
        by_type_rows_range by_type_assocs sum.case by_type_return)

lemma find_res_by_type_untyped:
  assumes "\<not> truthy restype"
  shows "find_res_by_type ds restype None id_only None =
     Inr (by_type_result id_only
       (by_type_order (filter (\<lambda>d. is_resource d \<and> non_retired d) (docs ds))))"
  unfolding find_res_by_type_def Let_def view_limit_None
  by (simp only: truthy.simps assms if_True if_False not_False_eq_True
        by_type_rows_all by_type_assocs sum.case by_type_return)

lemma sorted_map_mono:
  assumes "\<And>x y. f x \<le> f y \<Longrightarrow> g x \<le> g y"
  shows "sorted (map f xs) \<Longrightarrow> sorted (map g xs)"
  by (induction xs) (auto intro: assms)

lemma sorted_by_type_order:
  "sorted (map (\<lambda>d. (doc_type d, take 200 (the (doc_name d)))) (by_type_order xs))"
proof -
  have le: "\<And>a b c d i j. ([KStr a, KStr b], i::string) \<le> ([KStr c, KStr d], j) \<Longrightarrow> (a, b) \<le> (c, d)"
    by (auto simp: less_eq_prod_def less_kc_def)
  have "sorted (map (\<lambda>d. ([KStr (doc_type d), KStr (take 200 (the (doc_name d)))], doc_id d)) (by_type_order xs))"
    unfolding by_type_order_def by (rule sorted_sort_key)
  then show ?thesis
    by (rule sorted_map_mono[rotated]) (rule le)
qed

lemma mset_by_type_order: "mset (by_type_order xs) = mset xs"
  by (simp add: by_type_order_def)

section \<open>Claims\<close>

subsection \<open>C3: find by type\<close>

text \<open>
  C3. For a non-empty \<open>restype\<close>, \<open>find_res_by_type\<close> (with no filter) returns exactly
  the resources whose type is \<open>restype\<close> and whose lifecycle state is not \<open>RETIRED\<close>:
  their ids (or the resources themselves) and one dictionary each, in the order of
  the index, which is by type, then by the name cut to its first 200 characters
  (then by id). With an empty or absent \<open>restype\<close> the whole index is returned: all
  resources that are not retired. \<open>by_type_order\<close> is a sorted permutation of its
  argument.
\<close>

theorem find_res_by_type_exact:
  "(restype \<noteq> [] \<longrightarrow>
      find_res_by_type ds (Some restype) None id_only None =
        Inr (by_type_result id_only
          (by_type_order
             (filter (\<lambda>d. is_resource d \<and> doc_type d = restype \<and> non_retired d) (docs ds)))))
   \<and> (\<not> truthy rt \<longrightarrow>
      find_res_by_type ds rt None id_only None =
        Inr (by_type_result id_only
          (by_type_order (filter (\<lambda>d. is_resource d \<and> non_retired d) (docs ds)))))
   \<and> mset (by_type_order xs) = mset xs
   \<and> sorted (map (\<lambda>d. (doc_type d, take 200 (the (doc_name d)))) (by_type_order xs))"
  using find_res_by_type_typed find_res_by_type_untyped mset_by_type_order sorted_by_type_order
  by simp

theorem find_res_by_type_exact_witness:
  "find_res_by_type ex_resources (Some ''A'') None True None =
     Inr (Ids [''r1'', ''r2''],
          [[(''type'', KStr ''A''), (''name'', KStr ''alpha''), (''id'', KStr ''r1'')],
           [(''type'', KStr ''A''), (''name'', KStr ''beta''), (''id'', KStr ''r2'')]])
   \<and> find_res_by_type ex_resources (Some []) None True None =
     Inr (Ids [''r1'', ''r2'', ''r3''],
          [[(''type'', KStr ''A''), (''name'', KStr ''alpha''), (''id'', KStr ''r1'')],
           [(''type'', KStr ''A''), (''name'', KStr ''beta''), (''id'', KStr ''r2'')],
           [(''type'', KStr ''B''), (''name'', KStr ''alpha''), (''id'', KStr ''r3'')]])"
proof -
  have a: "by_type_result True
          (by_type_order
             (filter (\<lambda>d. is_resource d \<and> doc_type d = ''A'' \<and> non_retired d) (docs ex_resources)))
     = (Ids [''r1'', ''r2''],
          [[(''type'', KStr ''A''), (''name'', KStr ''alpha''), (''id'', KStr ''r1'')],
           [(''type'', KStr ''A''), (''name'', KStr ''beta''), (''id'', KStr ''r2'')]])"
    by code_simp
  have b: "by_type_result True
          (by_type_order (filter (\<lambda>d. is_resource d \<and> non_retired d) (docs ex_resources)))
     = (Ids [''r1'', ''r2'', ''r3''],
          [[(''type'', KStr ''A''), (''name'', KStr ''alpha''), (''id'', KStr ''r1'')],
           [(''type'', KStr ''A''), (''name'', KStr ''beta''), (''id'', KStr ''r2'')],
           [(''type'', KStr ''B''), (''name'', KStr ''alpha''), (''id'', KStr ''r3'')]])"
    by code_simp
  show ?thesis
    using find_res_by_type_exact[of "''A''" ex_resources True "Some []"] a b by simp
qed

subsection \<open>C6: the dispatcher and combined qualifiers\<close>

lemma truthy_the: "truthy x \<Longrightarrow> the x \<noteq> []"
  by (cases x) auto

lemma not_Inl_name: "find_res_by_name ds name restype id_only filt \<noteq> Inl e"
  using find_res_by_name_ok[of ds name restype id_only filt] by auto

lemma not_Inl_keyword:
  "truthy keyword \<Longrightarrow> find_res_by_keyword ds (the keyword) restype id_only filt \<noteq> Inl e"
  using find_res_by_keyword_ok[OF truthy_the, of keyword ds restype id_only filt] by auto

lemma not_Inl_altid: "find_res_by_alternative_id ds alt_id alt_id_ns id_only filt \<noteq> Inl e"
  using find_res_by_alternative_id_ok[of ds alt_id alt_id_ns id_only filt] by auto

lemma not_Inl_nested:
  "truthy nested_type \<Longrightarrow> find_res_by_nested_type ds (the nested_type) restype id_only filt \<noteq> Inl e"
  using find_res_by_nested_type_ok[OF truthy_the, of nested_type ds restype id_only filt] by auto

lemma not_Inl_attribute:
  "truthy attr_name \<Longrightarrow> find_res_by_attribute ds restype (the attr_name) attr_value id_only filt \<noteq> Inl e"
  using find_res_by_attribute_ok[OF truthy_the, of attr_name ds restype attr_value id_only filt] by auto

lemma not_Inl_lcstate: "fst (find_res_by_lcstate reg ds lcstate restype id_only filt) \<noteq> Inl e"
  using find_res_by_lcstate_ok[of reg ds lcstate restype id_only filt] by auto

lemma not_Inl_type:
  "\<not> truthy lcstate \<Longrightarrow> find_res_by_type ds restype lcstate id_only filt \<noteq> Inl e"
  using find_res_by_type_ok[of lcstate ds restype id_only filt] by auto

lemma find_resources_ext_answers:
  assumes "\<not> (name \<noteq> [] \<and> lcstate \<noteq> [])"
  shows "fst (find_resources_ext reg ds restype lcstate name keyword nested_type attr_name
            attr_value alt_id alt_id_ns limit id_only) \<noteq> Inl e"
  unfolding find_resources_ext_def using assms
  by (cases "name = []") (simp_all add: not_Inl_name not_Inl_keyword not_Inl_altid not_Inl_nested not_Inl_attribute
        not_Inl_lcstate not_Inl_type)

lemma by_name_single:
  "resource_by_name d =
     (if is_resource d \<and> non_retired d
      then [([kopt (doc_name d), KStr (doc_type d)], None)] else [])"
  by (auto simp: resource_by_name_def is_resource_def non_retired_def)

lemma by_name_rows:
  "view_range (view resource_by_name inc ds) key (get_endkey key) =
     map (\<lambda>d. row_of inc d ([kopt (doc_name d), KStr (doc_type d)], None))
       (sort_key (\<lambda>d. ([kopt (doc_name d), KStr (doc_type d)], doc_id d))
          (filter (\<lambda>d. (is_resource d \<and> non_retired d) \<and>
              take (length key) [kopt (doc_name d), KStr (doc_type d)] = key)
            (docs ds)))"
proof -
  have eq: "\<And>d. ((is_resource d \<and> non_retired d) \<and> key \<le> [kopt (doc_name d), KStr (doc_type d)]
             \<and> [kopt (doc_name d), KStr (doc_type d)] \<le> get_endkey key)
        = ((is_resource d \<and> non_retired d) \<and>
              take (length key) [kopt (doc_name d), KStr (doc_type d)] = key)"
    by (subst prefix_range) (simp_all add: kopt_not_End kopt_not_End[symmetric])
  show ?thesis
    by (rule view_range_single[OF by_name_single eq])
qed

lemma by_name_key:
  "((is_resource d \<and> non_retired d) \<and>
      take (length (if truthy (Some restype) then [KStr name, KStr (the (Some restype))] else [KStr name]))
        [kopt (doc_name d), KStr (doc_type d)]
      = (if truthy (Some restype) then [KStr name, KStr (the (Some restype))] else [KStr name]))
   = (is_resource d \<and> non_retired d \<and> doc_name d = Some name
        \<and> (restype \<noteq> [] \<longrightarrow> doc_type d = restype))"
  by (auto simp: kopt_eq_KStr)

lemma find_res_by_name_exact:
  "\<exists>res_assocs. find_res_by_name ds name (Some restype) id_only None =
     Inr (let L = sort_key (\<lambda>d. ([kopt (doc_name d), KStr (doc_type d)], doc_id d))
                    (filter (\<lambda>d. is_resource d \<and> non_retired d \<and> doc_name d = Some name
                                  \<and> (restype \<noteq> [] \<longrightarrow> doc_type d = restype)) (docs ds))
          in (if id_only then Ids (map doc_id L) else Objs (map Some L), res_assocs))"
proof -
  define L where "L = sort_key (\<lambda>d. ([kopt (doc_name d), KStr (doc_type d)], doc_id d))
                    (filter (\<lambda>d. is_resource d \<and> non_retired d \<and> doc_name d = Some name
                                  \<and> (restype \<noteq> [] \<longrightarrow> doc_type d = restype)) (docs ds))"
  define rows where "rows = map (\<lambda>d. row_of (\<not> id_only) d ([kopt (doc_name d), KStr (doc_type d)], None :: document option)) L"
  have ra: "res_assocs_of [(''name'', 0), (''type'', 1)] rows =
      Inr (map (\<lambda>r. map (\<lambda>f. (fst f, row_key r ! snd f)) [(''name'', 0), (''type'', 1)]
                 @ [(''id'', KStr (row_id r))]) rows)"
    by (rule res_assocs_of_ok[where n=2]) (auto simp: rows_def row_of_def)
  have r: "find_res_by_name ds name (Some restype) id_only None =
      Inr (prepare_find_return rows
              (map (\<lambda>r. map (\<lambda>f. (fst f, row_key r ! snd f)) [(''name'', 0), (''type'', 1)]
                 @ [(''id'', KStr (row_id r))]) rows) id_only)"
    unfolding find_res_by_name_def Let_def view_limit_None by_name_rows by_name_key
    by (simp only: sum.case ra flip: rows_def L_def)
  have p: "\<And>a. prepare_find_return rows a id_only
      = (if id_only then Ids (map doc_id L) else Objs (map Some L), a)"
    by (simp add: prepare_find_return_def rows_def row_of_def comp_def)
  show ?thesis
    unfolding r p Let_def L_def[symmetric] by (rule exI) (rule refl)
qed

lemma row_of_sel: "row_key (row_of inc d kv) = fst kv" "row_id (row_of inc d kv) = doc_id d"
  by (simp_all add: row_of_def)

lemma set_view_rows:
  "set (view mapf inc ds) = {row_of inc d kv | d kv. d \<in> set (docs ds) \<and> kv \<in> set (mapf d)}"
  by (auto simp: set_view emit_rows_def)

lemma view_range_prefix_ids:
  assumes "\<And>d kv. kv \<in> set (mapf d) \<Longrightarrow> KEnd \<notin> set (fst kv)"
  shows "set (map row_id (view_range (view mapf inc ds) key (get_endkey key)))
       = {doc_id d | d. d \<in> set (docs ds) \<and> (\<exists>kv \<in> set (mapf d). take (length key) (fst kv) = key)}"
proof (rule set_eqI, rule iffI)
  fix i
  assume "i \<in> set (map row_id (view_range (view mapf inc ds) key (get_endkey key)))"
  then obtain r where r: "r \<in> set (view mapf inc ds)" "key \<le> row_key r"
      "row_key r \<le> get_endkey key" "i = row_id r"
    by (auto simp: view_range_def)
  from r(1) obtain d kv where d: "d \<in> set (docs ds)" "kv \<in> set (mapf d)" "r = row_of inc d kv"
    unfolding set_view_rows by blast
  have "KEnd \<notin> set (fst kv)" using d(2) by (rule assms)
  then have "(key \<le> fst kv \<and> fst kv \<le> get_endkey key) = (take (length key) (fst kv) = key)"
    by (rule prefix_range)
  then have "take (length key) (fst kv) = key"
    using r(2,3) d(3) by (simp add: row_of_sel)
  with d(1,2) have "d \<in> set (docs ds) \<and> (\<exists>kv \<in> set (mapf d). take (length key) (fst kv) = key)"
    by blast
  moreover have "i = doc_id d" using r(4) d(3) by (simp add: row_of_sel)
  ultimately show "i \<in> {doc_id d | d. d \<in> set (docs ds)
      \<and> (\<exists>kv \<in> set (mapf d). take (length key) (fst kv) = key)}"
    by blast
next
  fix i
  assume "i \<in> {doc_id d | d. d \<in> set (docs ds)
      \<and> (\<exists>kv \<in> set (mapf d). take (length key) (fst kv) = key)}"
  then obtain d kv where d: "i = doc_id d" "d \<in> set (docs ds)" "kv \<in> set (mapf d)"
      "take (length key) (fst kv) = key" by blast
  have mem: "row_of inc d kv \<in> set (view mapf inc ds)"
    unfolding set_view_rows using d(2,3) by blast
  have "KEnd \<notin> set (fst kv)" using d(3) by (rule assms)
  then have "(key \<le> fst kv \<and> fst kv \<le> get_endkey key) = (take (length key) (fst kv) = key)"
    by (rule prefix_range)
  then have "key \<le> fst kv \<and> fst kv \<le> get_endkey key" using d(4) by simp
  then have "row_of inc d kv \<in> set (view_range (view mapf inc ds) key (get_endkey key))"
    using mem by (simp add: view_range_def row_of_sel)
  then have "row_id (row_of inc d kv) \<in> row_id ` set (view_range (view mapf inc ds) key (get_endkey key))"
    by (rule imageI)
  then show "i \<in> set (map row_id (view_range (view mapf inc ds) key (get_endkey key)))"
    using d(1) by (simp add: row_of_sel)
qed

lemma by_keyword_key:
  "(\<exists>kv \<in> set (resource_by_keyword d).
       take (length (if truthy (Some restype) then [KStr keyword, KStr (the (Some restype))]
                     else [KStr keyword])) (fst kv)
         = (if truthy (Some restype) then [KStr keyword, KStr (the (Some restype))] else [KStr keyword]))
   = (doc_type d \<noteq> [] \<and> non_retired d
        \<and> doc_keywords d \<noteq> None \<and> keyword \<in> set (the (doc_keywords d))
        \<and> (restype \<noteq> [] \<longrightarrow> doc_type d = restype))"
  by (auto simp: resource_by_keyword_def non_retired_def)

lemma by_nestedtype_key:
  "(\<exists>kv \<in> set (resource_by_nestedtype d).
       take (length (if truthy (Some restype) then [KStr nested_type, KStr (the (Some restype))]
                     else [KStr nested_type])) (fst kv)
         = (if truthy (Some restype) then [KStr nested_type, KStr (the (Some restype))]
            else [KStr nested_type]))
   = (doc_type d \<noteq> [] \<and> non_retired d
        \<and> nested_type \<in> set (filter (\<lambda>t. t \<noteq> []) (map (\<lambda>av. n_type (snd av)) (doc_attrs d)))
        \<and> (restype \<noteq> [] \<longrightarrow> doc_type d = restype))"
  by (auto simp: resource_by_nestedtype_def non_retired_def) force+

lemma by_keyword_no_End: "kv \<in> set (resource_by_keyword d) \<Longrightarrow> KEnd \<notin> set (fst kv)"
  by (auto simp: resource_by_keyword_def split: if_splits)

lemma by_nestedtype_no_End: "kv \<in> set (resource_by_nestedtype d) \<Longrightarrow> KEnd \<notin> set (fst kv)"
  by (auto simp: resource_by_nestedtype_def split: if_splits)

lemma by_keyword_set:
  "{doc_id d |d. d \<in> set (docs ds) \<and> (\<exists>kv \<in> set (resource_by_keyword d).
       take (length (if truthy (Some restype) then [KStr keyword, KStr (the (Some restype))]
                     else [KStr keyword])) (fst kv)
         = (if truthy (Some restype) then [KStr keyword, KStr (the (Some restype))] else [KStr keyword]))}
   = {doc_id d | d. d \<in> set (docs ds) \<and> doc_type d \<noteq> [] \<and> non_retired d
        \<and> doc_keywords d \<noteq> None \<and> keyword \<in> set (the (doc_keywords d))
        \<and> (restype \<noteq> [] \<longrightarrow> doc_type d = restype)}"
  by (simp only: by_keyword_key)

lemma by_nestedtype_set:
  "{doc_id d |d. d \<in> set (docs ds) \<and> (\<exists>kv \<in> set (resource_by_nestedtype d).
       take (length (if truthy (Some restype) then [KStr nested_type, KStr (the (Some restype))]
                     else [KStr nested_type])) (fst kv)
         = (if truthy (Some restype) then [KStr nested_type, KStr (the (Some restype))]
            else [KStr nested_type]))}
   = {doc_id d | d. d \<in> set (docs ds) \<and> doc_type d \<noteq> [] \<and> non_retired d
        \<and> nested_type \<in> set (filter (\<lambda>t. t \<noteq> []) (map (\<lambda>av. n_type (snd av)) (doc_attrs d)))
        \<and> (restype \<noteq> [] \<longrightarrow> doc_type d = restype)}"
  by (simp only: by_nestedtype_key)

lemma by_keyword_ids:
  "set (map row_id (view_range (view resource_by_keyword inc ds)
          (if truthy (Some restype) then [KStr keyword, KStr (the (Some restype))] else [KStr keyword])
          (get_endkey (if truthy (Some restype) then [KStr keyword, KStr (the (Some restype))] else [KStr keyword]))))
   = {doc_id d | d. d \<in> set (docs ds) \<and> doc_type d \<noteq> [] \<and> non_retired d
        \<and> doc_keywords d \<noteq> None \<and> keyword \<in> set (the (doc_keywords d))
        \<and> (restype \<noteq> [] \<longrightarrow> doc_type d = restype)}"
proof -
  have a: "set (map row_id (view_range (view resource_by_keyword inc ds)
          (if truthy (Some restype) then [KStr keyword, KStr (the (Some restype))] else [KStr keyword])
          (get_endkey (if truthy (Some restype) then [KStr keyword, KStr (the (Some restype))] else [KStr keyword]))))
     = {doc_id d |d. d \<in> set (docs ds) \<and> (\<exists>kv \<in> set (resource_by_keyword d).
         take (length (if truthy (Some restype) then [KStr keyword, KStr (the (Some restype))]
                       else [KStr keyword])) (fst kv)
           = (if truthy (Some restype) then [KStr keyword, KStr (the (Some restype))] else [KStr keyword]))}"
    by (rule view_range_prefix_ids) (rule by_keyword_no_End)
  show ?thesis
    by (rule trans[OF a by_keyword_set])
qed

lemma by_nestedtype_ids:
  "set (map row_id (view_range (view resource_by_nestedtype inc ds)
          (if truthy (Some restype) then [KStr nested_type, KStr (the (Some restype))] else [KStr nested_type])
          (get_endkey (if truthy (Some restype) then [KStr nested_type, KStr (the (Some restype))] else [KStr nested_type]))))
   = {doc_id d | d. d \<in> set (docs ds) \<and> doc_type d \<noteq> [] \<and> non_retired d
        \<and> nested_type \<in> set (filter (\<lambda>t. t \<noteq> []) (map (\<lambda>av. n_type (snd av)) (doc_attrs d)))
        \<and> (restype \<noteq> [] \<longrightarrow> doc_type d = restype)}"
proof -
  have a: "set (map row_id (view_range (view resource_by_nestedtype inc ds)
          (if truthy (Some restype) then [KStr nested_type, KStr (the (Some restype))] else [KStr nested_type])
          (get_endkey (if truthy (Some restype) then [KStr nested_type, KStr (the (Some restype))] else [KStr nested_type]))))
     = {doc_id d |d. d \<in> set (docs ds) \<and> (\<exists>kv \<in> set (resource_by_nestedtype d).
         take (length (if truthy (Some restype) then [KStr nested_type, KStr (the (Some restype))]
                       else [KStr nested_type])) (fst kv)
           = (if truthy (Some restype) then [KStr nested_type, KStr (the (Some restype))]
              else [KStr nested_type]))}"
    by (rule view_range_prefix_ids) (rule by_nestedtype_no_End)
  show ?thesis
    by (rule trans[OF a by_nestedtype_set])
qed

lemma find_res_by_keyword_ids:
  assumes "keyword \<noteq> []"
  shows "\<exists>ids res_assocs. find_res_by_keyword ds keyword (Some restype) True None = Inr (Ids ids, res_assocs)
     \<and> set ids = {doc_id d | d. d \<in> set (docs ds) \<and> doc_type d \<noteq> [] \<and> non_retired d
        \<and> doc_keywords d \<noteq> None \<and> keyword \<in> set (the (doc_keywords d))
        \<and> (restype \<noteq> [] \<longrightarrow> doc_type d = restype)}"
proof -
  define key where "key = (if truthy (Some restype) then [KStr keyword, KStr (the (Some restype))] else [KStr keyword])"
  define rows where "rows = view_range (view resource_by_keyword (\<not> True) ds) key (get_endkey key)"
  have len: "\<And>r. r \<in> set rows \<Longrightarrow> length (row_key r) = 2"
    unfolding rows_def using scan_len[OF by_keyword_len, where l = None] by (simp add: view_limit_None)
  have ra: "res_assocs_of [(''keyword'', 0), (''type'', 1)] rows =
      Inr (map (\<lambda>r. map (\<lambda>f. (fst f, row_key r ! snd f)) [(''keyword'', 0), (''type'', 1)]
                 @ [(''id'', KStr (row_id r))]) rows)"
    by (rule res_assocs_of_ok[where n=2]) (simp_all add: len)
  have r: "find_res_by_keyword ds keyword (Some restype) True None =
      Inr (prepare_find_return rows
              (map (\<lambda>r. map (\<lambda>f. (fst f, row_key r ! snd f)) [(''keyword'', 0), (''type'', 1)]
                 @ [(''id'', KStr (row_id r))]) rows) True)"
    unfolding find_res_by_keyword_def Let_def view_limit_None
    by (simp only: assms if_False sum.case ra flip: key_def rows_def)
  have s: "set (map row_id rows) = {doc_id d | d. d \<in> set (docs ds) \<and> doc_type d \<noteq> [] \<and> non_retired d
        \<and> doc_keywords d \<noteq> None \<and> keyword \<in> set (the (doc_keywords d))
        \<and> (restype \<noteq> [] \<longrightarrow> doc_type d = restype)}"
    unfolding rows_def key_def by (rule by_keyword_ids)
  show ?thesis
    unfolding r prepare_find_return_def using s by simp
qed

lemma find_res_by_nested_type_ids:
  assumes "nested_type \<noteq> []"
  shows "\<exists>ids res_assocs. find_res_by_nested_type ds nested_type (Some restype) True None = Inr (Ids ids, res_assocs)
     \<and> set ids = {doc_id d | d. d \<in> set (docs ds) \<and> doc_type d \<noteq> [] \<and> non_retired d
        \<and> nested_type \<in> set (filter (\<lambda>t. t \<noteq> []) (map (\<lambda>av. n_type (snd av)) (doc_attrs d)))
        \<and> (restype \<noteq> [] \<longrightarrow> doc_type d = restype)}"
proof -
  define key where "key = (if truthy (Some restype) then [KStr nested_type, KStr (the (Some restype))] else [KStr nested_type])"
  define rows where "rows = view_range (view resource_by_nestedtype (\<not> True) ds) key (get_endkey key)"
  have len: "\<And>r. r \<in> set rows \<Longrightarrow> length (row_key r) = 2"
    unfolding rows_def using scan_len[OF by_nestedtype_len, where l = None] by (simp add: view_limit_None)
  have ra: "res_assocs_of [(''nested_type'', 0), (''type'', 1)] rows =
      Inr (map (\<lambda>r. map (\<lambda>f. (fst f, row_key r ! snd f)) [(''nested_type'', 0), (''type'', 1)]
                 @ [(''id'', KStr (row_id r))]) rows)"
    by (rule res_assocs_of_ok[where n=2]) (simp_all add: len)
  have r: "find_res_by_nested_type ds nested_type (Some restype) True None =
      Inr (prepare_find_return rows
              (map (\<lambda>r. map (\<lambda>f. (fst f, row_key r ! snd f)) [(''nested_type'', 0), (''type'', 1)]
                 @ [(''id'', KStr (row_id r))]) rows) True)"
    unfolding find_res_by_nested_type_def Let_def view_limit_None
    by (simp only: assms if_False sum.case ra flip: key_def rows_def)
  have s: "set (map row_id rows) = {doc_id d | d. d \<in> set (docs ds) \<and> doc_type d \<noteq> [] \<and> non_retired d
        \<and> nested_type \<in> set (filter (\<lambda>t. t \<noteq> []) (map (\<lambda>av. n_type (snd av)) (doc_attrs d)))
        \<and> (restype \<noteq> [] \<longrightarrow> doc_type d = restype)}"
    unfolding rows_def key_def by (rule by_nestedtype_ids)
  show ?thesis
    unfolding r prepare_find_return_def using s by simp
qed

text \<open>
  C6, as amended. \<open>find_resources_ext\<close> answers a call from the first qualifier group
  that is supplied, in the order name, keyword, alt_id/alt_id_ns, nested_type,
  type with attr_name, type with lcstate, type, lcstate; with none of them it returns
  all resources that are not retired. The one combination it rejects is name together
  with lcstate (\<open>BadRequest\<close>); every other call is answered, never rejected: the
  result is an error exactly when name and lcstate are both supplied. The qualifiers
  of the later groups do not select the query, but \<open>restype\<close> is still passed to the
  by-name, by-keyword and by-nested-type queries and narrows them: without a limit,
  the by-name query returns the resources with that name, and of that type when a
  type is given, and the by-keyword and by-nested-type queries return the ids of the
  documents with that keyword (that nested type), and of that type when a type is
  given.
\<close>

theorem find_resources_ext_priority:
  "let call = find_resources_ext reg ds restype lcstate name keyword nested_type attr_name
                attr_value alt_id alt_id_ns limit id_only;
       later = (name = [] \<and> \<not> truthy keyword \<and> \<not> truthy alt_id \<and> \<not> truthy alt_id_ns
                \<and> \<not> truthy nested_type)
   in (name \<noteq> [] \<and> lcstate \<noteq> [] \<longrightarrow>
         call = (Inl (BadRequest ''find by name does not support lcstate''), ds))
    \<and> (name \<noteq> [] \<and> lcstate = [] \<longrightarrow>
         call = (find_res_by_name ds name (Some restype) id_only limit, ds))
    \<and> (name = [] \<and> truthy keyword \<longrightarrow>
         call = (find_res_by_keyword ds (the keyword) (Some restype) id_only limit, ds))
    \<and> (name = [] \<and> \<not> truthy keyword \<and> (truthy alt_id \<or> truthy alt_id_ns) \<longrightarrow>
         call = (find_res_by_alternative_id ds alt_id alt_id_ns id_only limit, ds))
    \<and> (name = [] \<and> \<not> truthy keyword \<and> \<not> truthy alt_id \<and> \<not> truthy alt_id_ns
          \<and> truthy nested_type \<longrightarrow>
         call = (find_res_by_nested_type ds (the nested_type) (Some restype) id_only limit, ds))
    \<and> (later \<and> restype \<noteq> [] \<and> truthy attr_name \<longrightarrow>
         call = (find_res_by_attribute ds restype (the attr_name) attr_value id_only limit, ds))
    \<and> (later \<and> restype \<noteq> [] \<and> \<not> truthy attr_name \<and> lcstate \<noteq> [] \<longrightarrow>
         call = find_res_by_lcstate reg ds lcstate (Some restype) id_only limit)
    \<and> (later \<and> restype \<noteq> [] \<and> \<not> truthy attr_name \<and> lcstate = [] \<longrightarrow>
         call = (find_res_by_type ds (Some restype) (Some []) id_only limit, ds))
    \<and> (later \<and> restype = [] \<and> lcstate \<noteq> [] \<longrightarrow>
         call = find_res_by_lcstate reg ds lcstate (Some []) id_only limit)
    \<and> (later \<and> restype = [] \<and> lcstate = [] \<longrightarrow>
         call = (find_res_by_type ds None None id_only limit, ds))
    \<and> ((\<exists>e. fst call = Inl e) \<longleftrightarrow> name \<noteq> [] \<and> lcstate \<noteq> [])
    \<and> (name \<noteq> [] \<and> lcstate = [] \<and> limit = None \<longrightarrow>
         (\<exists>res_assocs. fst call =
            Inr (let L = sort_key (\<lambda>d. ([kopt (doc_name d), KStr (doc_type d)], doc_id d))
                    (filter (\<lambda>d. is_resource d \<and> non_retired d \<and> doc_name d = Some name
                                  \<and> (restype \<noteq> [] \<longrightarrow> doc_type d = restype)) (docs ds))
                 in (if id_only then Ids (map doc_id L) else Objs (map Some L), res_assocs))))
    \<and> (name = [] \<and> truthy keyword \<and> limit = None \<and> id_only \<longrightarrow>
         (\<exists>ids res_assocs. fst call = Inr (Ids ids, res_assocs)
            \<and> set ids = {doc_id d | d. d \<in> set (docs ds) \<and> doc_type d \<noteq> [] \<and> non_retired d
                  \<and> doc_keywords d \<noteq> None \<and> the keyword \<in> set (the (doc_keywords d))
                  \<and> (restype \<noteq> [] \<longrightarrow> doc_type d = restype)}))
    \<and> (name = [] \<and> \<not> truthy keyword \<and> \<not> truthy alt_id \<and> \<not> truthy alt_id_ns
          \<and> truthy nested_type \<and> limit = None \<and> id_only \<longrightarrow>
         (\<exists>ids res_assocs. fst call = Inr (Ids ids, res_assocs)
            \<and> set ids = {doc_id d | d. d \<in> set (docs ds) \<and> doc_type d \<noteq> [] \<and> non_retired d
                  \<and> the nested_type \<in> set (filter (\<lambda>t. t \<noteq> [])
                                               (map (\<lambda>av. n_type (snd av)) (doc_attrs d)))
                  \<and> (restype \<noteq> [] \<longrightarrow> doc_type d = restype)}))"
proof -
  define call where "call = find_resources_ext reg ds restype lcstate name keyword nested_type attr_name
                attr_value alt_id alt_id_ns limit id_only"
  have a: "name \<noteq> [] \<and> lcstate \<noteq> [] \<Longrightarrow>
      fst call = Inl (BadRequest ''find by name does not support lcstate'')"
    by (simp add: call_def find_resources_ext_def)
  have b: "\<not> (name \<noteq> [] \<and> lcstate \<noteq> []) \<Longrightarrow> \<not> (\<exists>e. fst call = Inl e)"
    unfolding call_def
    using find_resources_ext_answers[of name lcstate reg ds restype keyword nested_type attr_name
                attr_value alt_id alt_id_ns limit id_only] by simp
  have c: "(\<exists>e. fst call = Inl e) \<longleftrightarrow> name \<noteq> [] \<and> lcstate \<noteq> []"
    using a b by blast
  have d: "name \<noteq> [] \<and> lcstate = [] \<and> limit = None \<longrightarrow>
         (\<exists>res_assocs. fst call =
            Inr (let L = sort_key (\<lambda>d. ([kopt (doc_name d), KStr (doc_type d)], doc_id d))
                    (filter (\<lambda>d. is_resource d \<and> non_retired d \<and> doc_name d = Some name
                                  \<and> (restype \<noteq> [] \<longrightarrow> doc_type d = restype)) (docs ds))
                 in (if id_only then Ids (map doc_id L) else Objs (map Some L), res_assocs)))"
  proof
    assume h: "name \<noteq> [] \<and> lcstate = [] \<and> limit = None"
    then have "fst call = find_res_by_name ds name (Some restype) id_only None"
      by (simp add: call_def find_resources_ext_def)
    then show "\<exists>res_assocs. fst call =
            Inr (let L = sort_key (\<lambda>d. ([kopt (doc_name d), KStr (doc_type d)], doc_id d))
                    (filter (\<lambda>d. is_resource d \<and> non_retired d \<and> doc_name d = Some name
                                  \<and> (restype \<noteq> [] \<longrightarrow> doc_type d = restype)) (docs ds))
                 in (if id_only then Ids (map doc_id L) else Objs (map Some L), res_assocs))"
      using find_res_by_name_exact[of ds name restype id_only] by simp
  qed
  have e: "name = [] \<and> truthy keyword \<and> limit = None \<and> id_only \<longrightarrow>
         (\<exists>ids res_assocs. fst call = Inr (Ids ids, res_assocs)
            \<and> set ids = {doc_id d | d. d \<in> set (docs ds) \<and> doc_type d \<noteq> [] \<and> non_retired d
                  \<and> doc_keywords d \<noteq> None \<and> the keyword \<in> set (the (doc_keywords d))
                  \<and> (restype \<noteq> [] \<longrightarrow> doc_type d = restype)})"
  proof
    assume h: "name = [] \<and> truthy keyword \<and> limit = None \<and> id_only"
    then have "fst call = find_res_by_keyword ds (the keyword) (Some restype) True None"
      by (simp add: call_def find_resources_ext_def)
    moreover have "the keyword \<noteq> []" using h by (simp add: truthy_the)
    ultimately show "\<exists>ids res_assocs. fst call = Inr (Ids ids, res_assocs)
            \<and> set ids = {doc_id d | d. d \<in> set (docs ds) \<and> doc_type d \<noteq> [] \<and> non_retired d
                  \<and> doc_keywords d \<noteq> None \<and> the keyword \<in> set (the (doc_keywords d))
                  \<and> (restype \<noteq> [] \<longrightarrow> doc_type d = restype)}"
      using find_res_by_keyword_ids[of "the keyword" ds restype] by simp
  qed
  have f: "name = [] \<and> \<not> truthy keyword \<and> \<not> truthy alt_id \<and> \<not> truthy alt_id_ns
          \<and> truthy nested_type \<and> limit = None \<and> id_only \<longrightarrow>
         (\<exists>ids res_assocs. fst call = Inr (Ids ids, res_assocs)
            \<and> set ids = {doc_id d | d. d \<in> set (docs ds) \<and> doc_type d \<noteq> [] \<and> non_retired d
                  \<and> the nested_type \<in> set (filter (\<lambda>t. t \<noteq> [])
                                               (map (\<lambda>av. n_type (snd av)) (doc_attrs d)))
                  \<and> (restype \<noteq> [] \<longrightarrow> doc_type d = restype)})"
  proof
    assume h: "name = [] \<and> \<not> truthy keyword \<and> \<not> truthy alt_id \<and> \<not> truthy alt_id_ns
          \<and> truthy nested_type \<and> limit = None \<and> id_only"
    then have "fst call = find_res_by_nested_type ds (the nested_type) (Some restype) True None"
      by (simp add: call_def find_resources_ext_def)
    moreover have "the nested_type \<noteq> []" using h by (simp add: truthy_the)
    ultimately show "\<exists>ids res_assocs. fst call = Inr (Ids ids, res_assocs)
            \<and> set ids = {doc_id d | d. d \<in> set (docs ds) \<and> doc_type d \<noteq> [] \<and> non_retired d
                  \<and> the nested_type \<in> set (filter (\<lambda>t. t \<noteq> [])
                                               (map (\<lambda>av. n_type (snd av)) (doc_attrs d)))
                  \<and> (restype \<noteq> [] \<longrightarrow> doc_type d = restype)}"
      using find_res_by_nested_type_ids[of "the nested_type" ds restype] by simp
  qed
  show ?thesis
    unfolding Let_def call_def[symmetric]
    apply (intro conjI)
                apply (simp_all add: call_def find_resources_ext_def)[10]
       apply (rule c)
      apply (rule d[unfolded Let_def])
     apply (rule e)
    apply (rule f)
    done
qed

text \<open>
  A call with name, keyword and type is the by-name query, narrowed by the type; a
  call with name and lcstate is rejected.
\<close>

theorem find_resources_ext_priority_witness:
  "fst (find_resources_ext ex_registry ex_resources ''A'' [] ''alpha'' (Some ''k'') None None None None None None True)
     = Inr (Ids [''r1''], [[(''name'', KStr ''alpha''), (''type'', KStr ''A''), (''id'', KStr ''r1'')]])
   \<and> find_resources_ext ex_registry ex_resources ''A'' ''DRAFT'' ''alpha'' None None None None None None None True
     = (Inl (BadRequest ''find by name does not support lcstate''), ex_resources)"
proof -
  have n: "find_res_by_name ex_resources ''alpha'' (Some ''A'') True None
     = Inr (Ids [''r1''], [[(''name'', KStr ''alpha''), (''type'', KStr ''A''), (''id'', KStr ''r1'')]])"
    by code_simp
  have a: "find_resources_ext ex_registry ex_resources ''A'' [] ''alpha'' (Some ''k'') None None None None None None True
     = (find_res_by_name ex_resources ''alpha'' (Some ''A'') True None, ex_resources)"
    using find_resources_ext_priority[of ex_registry ex_resources "''A''" "[]" "''alpha''" "Some ''k''"
        None None None None None None True, unfolded Let_def, THEN conjunct2, THEN conjunct1]
    by simp
  have b: "find_resources_ext ex_registry ex_resources ''A'' ''DRAFT'' ''alpha'' None None None None None None None True
     = (Inl (BadRequest ''find by name does not support lcstate''), ex_resources)"
    using find_resources_ext_priority[of ex_registry ex_resources "''A''" "''DRAFT''" "''alpha''" None
        None None None None None None True, unfolded Let_def, THEN conjunct1]
    by simp
  show ?thesis
    unfolding a b fst_conv n by simp
qed

text \<open>
  C6, as stated, fails: a call that supplies name together with keyword is not
  rejected with \<open>BadRequest\<close>; it is answered by name, and the keyword is ignored.
\<close>

theorem name_with_keyword_is_answered:
  "fst (find_resources_ext ex_registry ex_resources [] [] ''alpha'' (Some ''k'') None None None None None None True)
    = Inr (Ids [''r1'', ''r3''],
           [[(''name'', KStr ''alpha''), (''type'', KStr ''A''), (''id'', KStr ''r1'')],
            [(''name'', KStr ''alpha''), (''type'', KStr ''B''), (''id'', KStr ''r3'')]])"
  by code_simp

subsection \<open>C10 and C7: attribute arguments without a type; compound lifecycle states\<close>

text \<open>
  C10, as amended. A call to \<open>find_resources_ext\<close> with an empty restype and no
  name, keyword, alt-id, nested-type and no lcstate qualifier ignores \<open>attr_name\<close> and
  \<open>attr_value\<close>: it is the call \<open>find_res_by_type(None, None)\<close> of the no-qualifier
  branch, which (without a limit) returns all resources that are not retired.
\<close>

theorem attr_name_without_type_falls_through:
  assumes "restype = []" and "lcstate = []" and "name = []" and "\<not> truthy keyword"
    and "\<not> truthy alt_id" and "\<not> truthy alt_id_ns" and "\<not> truthy nested_type"
  shows "find_resources_ext reg ds restype lcstate name keyword nested_type attr_name attr_value
           alt_id alt_id_ns limit id_only
         = (find_res_by_type ds None None id_only limit, ds)
       \<and> (limit = None \<longrightarrow>
            fst (find_resources_ext reg ds restype lcstate name keyword nested_type attr_name
                   attr_value alt_id alt_id_ns limit id_only)
            = Inr (by_type_result id_only
                (by_type_order (filter (\<lambda>d. is_resource d \<and> non_retired d) (docs ds)))))"
proof -
  have a: "\<And>l. find_resources_ext reg ds restype lcstate name keyword nested_type attr_name attr_value
           alt_id alt_id_ns l id_only
         = (find_res_by_type ds None None id_only l, ds)"
    using assms by (simp add: find_resources_ext_def)
  have b: "find_res_by_type ds None None id_only None
     = Inr (by_type_result id_only
                (by_type_order (filter (\<lambda>d. is_resource d \<and> non_retired d) (docs ds))))"
    by (rule find_res_by_type_untyped) simp
  show ?thesis
    by (simp add: a b)
qed

text \<open>
  With \<open>attr_name\<close> and \<open>attr_value\<close> alone, all three resources of the example are returned.
\<close>

theorem attr_name_without_type_falls_through_witness:
  "fst (find_resources_ext ex_registry ex_resources [] [] [] None None (Some ''contact.email'')
          (Some ''x'') None None None True)
   = Inr (Ids [''r1'', ''r2'', ''r3''],
          [[(''type'', KStr ''A''), (''name'', KStr ''alpha''), (''id'', KStr ''r1'')],
           [(''type'', KStr ''A''), (''name'', KStr ''beta''), (''id'', KStr ''r2'')],
           [(''type'', KStr ''B''), (''name'', KStr ''alpha''), (''id'', KStr ''r3'')]])"
proof -
  have b: "by_type_result True
          (by_type_order (filter (\<lambda>d. is_resource d \<and> non_retired d) (docs ex_resources)))
     = (Ids [''r1'', ''r2'', ''r3''],
          [[(''type'', KStr ''A''), (''name'', KStr ''alpha''), (''id'', KStr ''r1'')],
           [(''type'', KStr ''A''), (''name'', KStr ''beta''), (''id'', KStr ''r2'')],
           [(''type'', KStr ''B''), (''name'', KStr ''alpha''), (''id'', KStr ''r3'')]])"
    by code_simp
  show ?thesis
    using attr_name_without_type_falls_through[of "[]" "[]" "[]" None None None None
        ex_registry ex_resources "Some ''contact.email''" "Some ''x''" None True, THEN conjunct2] b
    by simp
qed

text \<open>
  C10, as stated, fails: the claim excludes name, keyword, alt-id and nested-type, but
  not lcstate. With an lcstate the call is answered by \<open>find_res_by_lcstate\<close>, not by
  the no-qualifier branch: here it returns the two DRAFT resources, not all three.
\<close>

theorem attr_name_with_lcstate_is_a_state_query:
  "fst (find_resources_ext ex_registry ex_resources [] ''DRAFT'' [] None None (Some ''contact.email'')
          None None None None True)
   = Inr (Ids [''r1'', ''r3''],
          [[(''lcstate'', KStr ''DRAFT''), (''type'', KStr ''A''), (''name'', KStr ''alpha''),
            (''id'', KStr ''r1'')],
           [(''lcstate'', KStr ''DRAFT''), (''type'', KStr ''B''), (''name'', KStr ''alpha''),
            (''id'', KStr ''r3'')]])
   \<and> find_res_by_type ex_resources None None True None
   = Inr (Ids [''r1'', ''r2'', ''r3''],
          [[(''type'', KStr ''A''), (''name'', KStr ''alpha''), (''id'', KStr ''r1'')],
           [(''type'', KStr ''A''), (''name'', KStr ''beta''), (''id'', KStr ''r2'')],
           [(''type'', KStr ''B''), (''name'', KStr ''alpha''), (''id'', KStr ''r3'')]])"
  by code_simp

lemma lcstate_key_compound:
  assumes "CHR ''_'' \<in> set lcstate"
  shows "lcstate_key reg lcstate restype =
           Inr ([''Search for compound lcstate restricted to maturity: %s''],
                [KNum (if takeWhile (\<lambda>c. c \<noteq> CHR ''_'') lcstate \<in> set (AVAILABILITY reg) then 1 else 0),
                 KStr (takeWhile (\<lambda>c. c \<noteq> CHR ''_'') lcstate)]
                @ (if truthy restype then [KStr (the restype)] else []))"
  using assms by (simp add: lcstate_key_def Let_def split_1_first)

text \<open>
  C7. For a lifecycle state that contains an underscore, \<open>find_res_by_lcstate\<close> logs
  one warning and uses the prefix before the first underscore as the state. The start
  key of the scan is the axis (1 when that state is an availability state, 0
  otherwise), the state and, when it is supplied, the resource type; the rows
  returned are those of the range scan from that key.
\<close>

theorem find_res_by_lcstate_compound:
  assumes "CHR ''_'' \<in> set lcstate"
  shows "let state = takeWhile (\<lambda>c. c \<noteq> CHR ''_'') lcstate;
             key = [KNum (if state \<in> set (AVAILABILITY reg) then 1 else 0), KStr state]
                   @ (if truthy restype then [KStr (the restype)] else []);
             rows = view_limit filt
                      (view_range (view resource_by_lcstate (\<not> id_only) ds) key (get_endkey key));
             ret = find_res_by_lcstate reg ds lcstate restype id_only filt
         in (\<exists>rest. lcstate = state @ CHR ''_'' # rest) \<and> CHR ''_'' \<notin> set state
          \<and> lcstate_key reg lcstate restype
              = Inr ([''Search for compound lcstate restricted to maturity: %s''], key)
          \<and> warnings (snd ret)
              = warnings ds @ [''Search for compound lcstate restricted to maturity: %s'']
          \<and> docs (snd ret) = docs ds
          \<and> (\<exists>res_assocs. fst ret = Inr (prepare_find_return rows res_assocs id_only))"
proof -
  define state where "state = takeWhile (\<lambda>c. c \<noteq> CHR ''_'') lcstate"
  define key where "key = [KNum (if state \<in> set (AVAILABILITY reg) then 1 else 0), KStr state]
                   @ (if truthy restype then [KStr (the restype)] else [])"
  define rows where "rows = view_limit filt
                      (view_range (view resource_by_lcstate (\<not> id_only) ds) key (get_endkey key))"
  have k: "lcstate_key reg lcstate restype
              = Inr ([''Search for compound lcstate restricted to maturity: %s''], key)"
    unfolding key_def state_def by (rule lcstate_key_compound[OF assms])
  have "dropWhile (\<lambda>c. c \<noteq> CHR ''_'') lcstate \<noteq> []"
    using assms by (simp add: dropWhile_eq_Nil_conv)
  moreover have "hd (dropWhile (\<lambda>c. c \<noteq> CHR ''_'') lcstate) = CHR ''_''"
    using hd_dropWhile[of "\<lambda>c. c \<noteq> CHR ''_''" lcstate] calculation by auto
  ultimately have "dropWhile (\<lambda>c. c \<noteq> CHR ''_'') lcstate
      = CHR ''_'' # tl (dropWhile (\<lambda>c. c \<noteq> CHR ''_'') lcstate)"
    by (cases "dropWhile (\<lambda>c. c \<noteq> CHR ''_'') lcstate") auto
  then have "lcstate = state @ CHR ''_'' # tl (dropWhile (\<lambda>c. c \<noteq> CHR ''_'') lcstate)"
    unfolding state_def using takeWhile_dropWhile_id[of "\<lambda>c. c \<noteq> CHR ''_''" lcstate] by simp
  then have p: "\<exists>rest. lcstate = state @ CHR ''_'' # rest" ..
  have q: "CHR ''_'' \<notin> set state"
    unfolding state_def by (auto dest: set_takeWhileD)
  have len: "\<And>r. r \<in> set rows \<Longrightarrow> length (row_key r) = 4"
    unfolding rows_def by (rule scan_len[OF by_lcstate_len])
  have ra: "res_assocs_of [(''lcstate'', 1), (''type'', 2), (''name'', 3)] rows =
      Inr (map (\<lambda>r. map (\<lambda>f. (fst f, row_key r ! snd f)) [(''lcstate'', 1), (''type'', 2), (''name'', 3)]
                 @ [(''id'', KStr (row_id r))]) rows)"
    by (rule res_assocs_of_ok[where n=4]) (simp_all add: len)
  have r: "find_res_by_lcstate reg ds lcstate restype id_only filt =
      (Inr (prepare_find_return rows
              (map (\<lambda>r. map (\<lambda>f. (fst f, row_key r ! snd f)) [(''lcstate'', 1), (''type'', 2), (''name'', 3)]
                 @ [(''id'', KStr (row_id r))]) rows) id_only),
       ds\<lparr>warnings := warnings ds @ [''Search for compound lcstate restricted to maturity: %s'']\<rparr>)"
    unfolding find_res_by_lcstate_def k Let_def
    by (simp only: sum.case prod.case ra flip: rows_def)
  have w: "warnings (snd (find_res_by_lcstate reg ds lcstate restype id_only filt))
      = warnings ds @ [''Search for compound lcstate restricted to maturity: %s'']"
    by (simp add: r)
  have d: "docs (snd (find_res_by_lcstate reg ds lcstate restype id_only filt)) = docs ds"
    by (simp add: r)
  have e: "\<exists>res_assocs. fst (find_res_by_lcstate reg ds lcstate restype id_only filt)
      = Inr (prepare_find_return rows res_assocs id_only)"
    unfolding r fst_conv by (rule exI) (rule refl)
  show ?thesis
    unfolding Let_def
    unfolding state_def[symmetric]
    unfolding key_def[symmetric]
    unfolding rows_def[symmetric]
    using p q k w d e by (intro conjI)
qed

text \<open>
  \<open>DEPLOYED_AVAILABLE\<close> is searched as the maturity state \<open>DEPLOYED\<close>, with a warning.
\<close>

theorem find_res_by_lcstate_compound_witness:
  "lcstate_key ex_registry ''DEPLOYED_AVAILABLE'' (Some ''A'')
     = Inr ([''Search for compound lcstate restricted to maturity: %s''],
            [KNum 0, KStr ''DEPLOYED'', KStr ''A''])
   \<and> warnings (snd (find_res_by_lcstate ex_registry ex_resources ''DEPLOYED_AVAILABLE'' (Some ''A'') True None))
     = [''Search for compound lcstate restricted to maturity: %s'']"
proof -
  have a: "CHR ''_'' \<in> set ''DEPLOYED_AVAILABLE''" by simp
  have b: "takeWhile (\<lambda>c. c \<noteq> CHR ''_'') ''DEPLOYED_AVAILABLE'' = ''DEPLOYED''" by simp
  have c: "warnings ex_resources = []" "AVAILABILITY ex_registry = [''PRIVATE'', ''DISCOVERABLE'', ''AVAILABLE'']"
    by (simp_all add: ex_resources_def ex_registry_def)
  show ?thesis
    using find_res_by_lcstate_compound[OF a, of ex_registry "Some ''A''" None True ex_resources]
    unfolding Let_def b c by simp
qed

subsection \<open>C9: row projection\<close>





lemma parse_items_first_failure:
  "parse_items deserialize before = Inr ys \<Longrightarrow> parse_results deserialize (snd kv) = Inl e \<Longrightarrow>
     parse_items deserialize (before @ kv # rest) = Inl e"
  by (induction before arbitrary: ys) (auto split: sum.splits)




subsection \<open>Creating associations: lemmas\<close>

lemma found_in_extends_iff:
  "found_in_extends ext t ds = (\<exists>d \<in> set ds. t \<in> set (ext d))"
  by (induction ds) auto

lemma read_doc_Inr: "read_doc ds i = Inr d \<Longrightarrow> doc_id d = i \<and> d \<in> set (docs ds)"
  by (auto simp: read_doc_def find_Some_iff split: option.splits)

lemma resolve_id:
  "resolve ds x msg = Inr (ob, i, t) \<Longrightarrow> io_id ob = Some i \<and> io_type ob = t"
  by (auto simp: resolve_def read_def persistence_dict_to_ion_object_def
      dest: read_doc_Inr split: ref.splits sum.splits option.splits if_splits)

lemma by_match_single:
  "association_by_match d =
     (if live_assoc d then [([kopt (doc_s d), kopt (doc_o d), kopt (doc_p d)], Some d)] else [])"
  by (simp add: association_by_match_def live_assoc_def)

lemma by_match_rows:
  "view_range (view association_by_match inc ds) [KStr s, KStr ob, KStr p] (get_endkey [KStr s, KStr ob, KStr p]) =
     map (\<lambda>d. row_of inc d ([kopt (doc_s d), kopt (doc_o d), kopt (doc_p d)], Some d))
       (sort_key (\<lambda>d. ([kopt (doc_s d), kopt (doc_o d), kopt (doc_p d)], doc_id d))
          (filter (\<lambda>d. live_assoc d \<and> triple d = (Some s, Some p, Some ob)) (docs ds)))"
proof -
  have eq: "\<And>d. (live_assoc d \<and> [KStr s, KStr ob, KStr p] \<le> [kopt (doc_s d), kopt (doc_o d), kopt (doc_p d)]
             \<and> [kopt (doc_s d), kopt (doc_o d), kopt (doc_p d)] \<le> get_endkey [KStr s, KStr ob, KStr p])
        = (live_assoc d \<and> triple d = (Some s, Some p, Some ob))"
    by (subst prefix_range) (auto simp: kopt_not_End kopt_not_End[symmetric] kopt_eq_KStr triple_def)
  show ?thesis
    by (rule view_range_single[OF by_match_single eq])
qed

lemma find_associations_match:
  assumes "io_id sob = Some s" and "io_id oob = Some ob" and "p \<noteq> []"
  shows "find_associations ds (Some (RefObj sob)) (Some p) (Some (RefObj oob)) False None None =
     Inr (Objs (map Some
       (sort_key (\<lambda>d. ([kopt (doc_s d), kopt (doc_o d), kopt (doc_p d)], doc_id d))
          (filter (\<lambda>d. live_assoc d \<and> triple d = (Some s, Some p, Some ob)) (docs ds)))))"
  unfolding find_associations_def Let_def view_limit_None with_pred_def
  using assms
  by (simp add: by_match_rows id_value_def row_of_def comp_def)


lemma dup_found:
  "(found_len (Objs (map Some
       (sort_key f (filter (\<lambda>d. live_assoc d \<and> triple d = t) (docs ds)))) :: (string, document option) found) \<noteq> 0)
    = (t \<in> set (map triple (live_assocs ds)))"
proof -
  have "(filter (\<lambda>d. live_assoc d \<and> triple d = t) (docs ds) \<noteq> []) = (t \<in> set (map triple (live_assocs ds)))"
    by (auto simp: filter_empty_conv live_assocs_def)
  then show ?thesis by simp
qed

lemma create_association_checked:
  assumes "ref_truthy (Some sref)" and "ref_truthy (Some oref)" and "p \<noteq> []"
    and "resolve ds sref ''Subject id or rev not available'' = Inr (sob, s, st)"
    and "resolve ds oref ''Object id or rev not available'' = Inr (oob, ob, ot)"
  shows "create_association reg new_id now ds (Some sref) (Some p) (Some oref) =
    (case Predicates reg p of
       None \<Rightarrow> (Inl (BadRequest ''Predicate unknown %s''), ds)
     | Some pt \<Rightarrow>
        if \<not> type_permitted reg st (pt_domain pt)
        then (Inl (BadRequest ''Illegal subject type %s for predicate %s''), ds)
        else if \<not> type_permitted reg ot (pt_range pt)
        then (Inl (BadRequest ''Illegal object type %s for predicate %s''), ds)
        else if (Some s, Some p, Some ob) \<in> set (map triple (live_assocs ds))
        then (Inl (BadRequest ''Association between %s and %s with predicate %s already exists''), ds)
        else create_doc ds (new_association s st p ob ot now) new_id)"
proof -
  have ids: "io_id sob = Some s" "io_id oob = Some ob"
    using assms(4,5) by (auto dest: resolve_id)
  have fa: "find_associations ds (Some (RefObj sob)) (Some p) (Some (RefObj oob)) False None None =
     Inr (Objs (map Some
       (sort_key (\<lambda>d. ([kopt (doc_s d), kopt (doc_o d), kopt (doc_p d)], doc_id d))
          (filter (\<lambda>d. live_assoc d \<and> triple d = (Some s, Some p, Some ob)) (docs ds)))))"
    by (rule find_associations_match[OF ids assms(3)])
  show ?thesis
  proof (cases "Predicates reg p")
    case None
    then show ?thesis
      unfolding create_association_def using assms by simp
  next
    case (Some pt)
    show ?thesis
      unfolding create_association_def
      using assms(1-3)
      by (simp only: assms(4,5) Some fa dup_found sum.case prod.case option.case option.sel
            found_in_extends_iff type_permitted_def truthy.simps simp_thms if_True if_False de_Morgan_disj
            split: if_split)
  qed
qed

subsection \<open>C2: the type rule of a predicate\<close>

text \<open>
  C2. For a call of \<open>create_association\<close> that reaches the type check (all three
  arguments set, subject and object resolved, the predicate known with domain \<open>D\<close> and
  range \<open>R\<close>): it raises \<open>BadRequest\<close> for an illegal subject type exactly when the
  subject's type is neither in \<open>D\<close> nor among the types that extend (\<open>getextends\<close>) a
  type in \<open>D\<close>; it raises \<open>BadRequest\<close> for an illegal object type exactly when the
  subject's type is permitted and the object's type is neither in \<open>R\<close> nor among the
  types that extend a type in \<open>R\<close>; when the subject's type is in \<open>D\<close> and the
  object's in \<open>R\<close>, the type check passes.
\<close>

theorem type_check_exact:
  assumes "ref_truthy (Some sref)" and "ref_truthy (Some oref)" and "p \<noteq> []"
    and "resolve ds sref ''Subject id or rev not available'' = Inr (sob, s, st)"
    and "resolve ds oref ''Object id or rev not available'' = Inr (oob, ob, ot)"
    and "Predicates reg p = Some pt"
  shows "let r = fst (create_association reg new_id now ds (Some sref) (Some p) (Some oref))
         in (r = Inl (BadRequest ''Illegal subject type %s for predicate %s'')
               \<longleftrightarrow> \<not> type_permitted reg st (pt_domain pt))
          \<and> (r = Inl (BadRequest ''Illegal object type %s for predicate %s'')
               \<longleftrightarrow> type_permitted reg st (pt_domain pt) \<and> \<not> type_permitted reg ot (pt_range pt))
          \<and> (st \<in> set (pt_domain pt) \<and> ot \<in> set (pt_range pt) \<longrightarrow>
                r \<noteq> Inl (BadRequest ''Illegal subject type %s for predicate %s'')
              \<and> r \<noteq> Inl (BadRequest ''Illegal object type %s for predicate %s''))"
proof -
  have c: "fst (create_doc ds d new_id) \<noteq> Inl (BadRequest m)" for d m
    by (simp add: create_doc_def)
  show ?thesis
    unfolding Let_def create_association_checked[OF assms(1-5)] assms(6) option.case
    using c by (auto simp: type_permitted_def)
qed

text \<open>
  With the predicate \<open>hasPart\<close> from \<open>A\<close> to \<open>B\<close>: a subject of type \<open>B\<close> is illegal, a
  subject of type \<open>A\<close> with an object of type \<open>B\<close> passes.
\<close>

theorem type_check_exact_witness:
  "fst (create_association ex_registry ''a9'' ''0'' ex_resources
          (Some (RefStr ''r3'')) (Some ''hasPart'') (Some (RefStr ''r1'')))
     = Inl (BadRequest ''Illegal subject type %s for predicate %s'')
   \<and> fst (create_association ex_registry ''a9'' ''0'' ex_resources
          (Some (RefStr ''r1'')) (Some ''hasPart'') (Some (RefStr ''r3'')))
     \<noteq> Inl (BadRequest ''Illegal subject type %s for predicate %s'')"
proof -
  have r1: "resolve ex_resources (RefStr ''r1'') m
      = Inr (\<lparr>io_id = Some ''r1'', io_rev = Some ''1'', io_type = ''A''\<rparr>, ''r1'', ''A'')" for m
    by (simp add: resolve_def read_def read_doc_def ex_resources_def resource_def
          persistence_dict_to_ion_object_def)
  have r3: "resolve ex_resources (RefStr ''r3'') m
      = Inr (\<lparr>io_id = Some ''r3'', io_rev = Some ''1'', io_type = ''B''\<rparr>, ''r3'', ''B'')" for m
    by (simp add: resolve_def read_def read_doc_def ex_resources_def resource_def
          persistence_dict_to_ion_object_def)
  have p: "Predicates ex_registry ''hasPart'' = Some \<lparr>pt_domain = [''A''], pt_range = [''B'']\<rparr>"
    by (simp add: ex_registry_def)
  have g: "getextends ex_registry ''A'' = [''A1'']"
    by (simp add: ex_registry_def)
  have t: "ref_truthy (Some (RefStr ''r1''))" "ref_truthy (Some (RefStr ''r3''))" "''hasPart'' \<noteq> []"
    by simp_all
  show ?thesis
    using type_check_exact[OF t(2) t(1) t(3) r3 r1 p, of "''a9''" "''0''"]
      type_check_exact[OF t(1) t(2) t(3) r1 r3 p, of "''a9''" "''0''"]
    by (simp add: Let_def type_permitted_def g)
qed

subsection \<open>Deleting and creating: how the store changes\<close>

lemma find_app:
  "find P (xs @ ys) = (case find P xs of None \<Rightarrow> find P ys | Some x \<Rightarrow> Some x)"
  by (induction xs) auto

lemma read_doc_append:
  "read_doc ds i = Inr d \<Longrightarrow> read_doc (ds\<lparr>docs := docs ds @ xs\<rparr>) i = Inr d"
  by (auto simp: read_doc_def find_app split: option.splits)

lemma resolve_append:
  "resolve ds x m = Inr r \<Longrightarrow> resolve (ds\<lparr>docs := docs ds @ xs\<rparr>) x m = Inr r"
proof (cases x)
  case (RefStr i)
  assume a: "resolve ds x m = Inr r"
  then obtain d where d: "read_doc ds i = Inr d"
    using RefStr by (cases "read_doc ds i") (auto simp: resolve_def read_def)
  then have "read_doc (ds\<lparr>docs := docs ds @ xs\<rparr>) i = Inr d" by (rule read_doc_append)
  then show ?thesis using a d RefStr by (simp add: resolve_def read_def)
next
  case (RefObj ob)
  assume "resolve ds x m = Inr r"
  then show ?thesis using RefObj by (simp add: resolve_def)
qed

lemma create_doc_fresh:
  "new_id \<notin> set (map doc_id (docs ds)) \<Longrightarrow>
     create_doc ds d new_id =
       (Inr (new_id, ''1''), ds\<lparr>docs := docs ds @ [d\<lparr>doc_id := new_id, doc_rev := ''1''\<rparr>]\<rparr>)"
  by (simp add: create_doc_def)

lemma create_doc_state:
  "snd (create_doc ds d new_id) = ds
   \<or> snd (create_doc ds d new_id) = ds\<lparr>docs := docs ds @ [d\<lparr>doc_id := new_id, doc_rev := ''1''\<rparr>]\<rparr>"
  by (simp add: create_doc_def)

lemma new_association_live:
  "live_assoc ((new_association s st p ob ot now)\<lparr>doc_id := i, doc_rev := r\<rparr>)"
  "triple ((new_association s st p ob ot now)\<lparr>doc_id := i, doc_rev := r\<rparr>) = (Some s, Some p, Some ob)"
  by (simp_all add: live_assoc_def triple_def new_association_def)

lemma live_assocs_append:
  "live_assocs (ds\<lparr>docs := docs ds @ [a]\<rparr>) = live_assocs ds @ (if live_assoc a then [a] else [])"
  by (simp add: live_assocs_def)

lemma one_per_triple_append:
  assumes "one_per_triple ds" and "triple a \<notin> set (map triple (live_assocs ds))"
  shows "one_per_triple (ds\<lparr>docs := docs ds @ [a]\<rparr>)"
  using assms by (auto simp: one_per_triple_def live_assocs_append)

lemma one_per_triple_filter:
  assumes "one_per_triple ds" and "docs ds' = filter P (docs ds)"
  shows "one_per_triple ds'"
proof -
  have "live_assocs ds' = filter P (live_assocs ds)"
    using assms(2) by (simp add: live_assocs_def conj_commute)
  then show ?thesis
    using assms(1) by (simp add: one_per_triple_def distinct_map_filter)
qed

lemma base_delete_doc_docs:
  "\<exists>P. docs (snd (base_delete_doc ds doc)) = filter P (docs ds)"
proof (cases "docs (snd (base_delete_doc ds doc)) = docs ds")
  case True
  then have "docs (snd (base_delete_doc ds doc)) = filter (\<lambda>x. True) (docs ds)" by simp
  then show ?thesis by (rule exI[where x="\<lambda>x. True"])
next
  case False
  then have "docs (snd (base_delete_doc ds doc)) = filter (\<lambda>x. doc_id x \<noteq> docref_id doc) (docs ds)"
    by (cases doc) (auto simp: base_delete_doc_def split: sum.splits if_splits)
  then show ?thesis by (rule exI[where x="\<lambda>x. doc_id x \<noteq> docref_id doc"])
qed

lemma filter_filter_ex:
  assumes "\<exists>P. ys = filter P xs" and "\<exists>Q. zs = filter Q ys"
  shows "\<exists>R. zs = filter R xs"
proof -
  from assms obtain P Q where "ys = filter P xs" "zs = filter Q ys" by auto
  then have "zs = filter (\<lambda>x. P x \<and> Q x) xs" by (simp add: conj_commute)
  then show ?thesis by (rule exI[where x="\<lambda>x. P x \<and> Q x"])
qed

lemma filter_id_ex: "\<exists>P. xs = filter P xs"
proof -
  have "xs = filter (\<lambda>x. True) xs" by simp
  then show ?thesis by (rule exI[where x="\<lambda>x. True"])
qed

lemma delete_doc_docs:
  "\<exists>P. docs (snd (delete_doc ds doc del)) = filter P (docs ds)"
proof (cases del)
  case True
  show ?thesis
  proof (cases "find_associations ds None None None True (Some (AnyStr (docref_id doc))) None")
    case (Inl e)
    then show ?thesis using True by (simp add: delete_doc_def filter_id_ex)
  next
    case (Inr ids)
    have a: "\<exists>P. docs (delete_doc_mult ds (the_ids ids)) = filter P (docs ds)"
      unfolding delete_doc_mult_def by (simp, rule exI, rule refl)
    have b: "\<exists>Q. docs (snd (base_delete_doc (delete_doc_mult ds (the_ids ids)) doc))
                = filter Q (docs (delete_doc_mult ds (the_ids ids)))"
      by (rule base_delete_doc_docs)
    show ?thesis
      using True Inr filter_filter_ex[OF a b] by (simp add: delete_doc_def)
  qed
next
  case False
  have w: "\<exists>P. docs (snd (base_delete_doc (ds\<lparr>warnings := w\<rparr>) doc)) = filter P (docs ds)" for w
    using base_delete_doc_docs[of "ds\<lparr>warnings := w\<rparr>" doc] by simp
  show ?thesis
    using False w base_delete_doc_docs[of ds doc]
    by (cases "is_in_association ds (docref_id doc)")
       (auto simp: delete_doc_def filter_id_ex split: bool.splits)
qed

lemma delete_docs:
  "\<exists>P. docs (snd (delete ds obj del)) = filter P (docs ds)"
  by (cases obj) (auto simp: delete_def delete_doc_docs filter_id_ex split: option.splits)

lemma delete_each_docs:
  "\<exists>P. docs (snd (delete_each ds success aids)) = filter P (docs ds)"
proof (induction aids arbitrary: ds success)
  case Nil
  then show ?case by (simp add: filter_id_ex)
next
  case (Cons aid rest)
  show ?case
  proof (cases "success = Some True")
    case False
    then show ?thesis using Cons.IH[of ds success] by simp
  next
    case True
    obtain r ds' where d: "delete ds (RefStr aid) False = (r, ds')" by (cases "delete ds (RefStr aid) False")
    have a: "\<exists>P. docs ds' = filter P (docs ds)"
      using delete_docs[of ds "RefStr aid" False] d by simp
    show ?thesis
    proof (cases r)
      case (Inl e)
      then show ?thesis using True d a by simp
    next
      case (Inr u)
      have "\<exists>Q. docs (snd (delete_each ds' None rest)) = filter Q (docs ds')"
        by (rule Cons.IH)
      from filter_filter_ex[OF a this] show ?thesis using True d Inr by simp
    qed
  qed
qed

lemma delete_association_docs:
  "\<exists>P. docs (snd (delete_association ds a)) = filter P (docs ds)"
proof (cases a)
  case (Triple s p ob)
  then show ?thesis
    by (cases "find_associations ds s p ob True None None")
       (simp_all add: delete_association_def delete_each_docs filter_id_ex)
next
  case (AssocRef x)
  obtain r ds' where d: "delete ds x False = (r, ds')" by (cases "delete ds x False")
  have "\<exists>P. docs ds' = filter P (docs ds)"
    using delete_docs[of ds x False] d by simp
  then show ?thesis using AssocRef d by (cases r) (simp_all add: delete_association_def)
qed

subsection \<open>C1: no duplicate association\<close>

lemma create_association_keeps_one_per_triple:
  assumes "one_per_triple ds"
  shows "one_per_triple (snd (create_association reg new_id now ds subject predicate obj))"
proof (cases "ref_truthy subject \<and> truthy predicate \<and> ref_truthy obj")
  case False
  then show ?thesis using assms by (auto simp: create_association_def)
next
  case True
  then obtain sref p oref where args: "subject = Some sref" "predicate = Some p" "obj = Some oref"
    by (cases subject; cases predicate; cases obj) auto
  have t: "ref_truthy (Some sref)" "ref_truthy (Some oref)" "p \<noteq> []"
    using True args by auto
  show ?thesis
  proof (cases "resolve ds sref ''Subject id or rev not available''")
    case (Inl e)
    then show ?thesis using assms True args by (simp add: create_association_def)
  next
    case sr: (Inr a)
    obtain sob s st where a: "a = (sob, s, st)" by (cases a)
    show ?thesis
    proof (cases "resolve ds oref ''Object id or rev not available''")
      case (Inl e)
      then show ?thesis using assms True args sr a by (simp add: create_association_def)
    next
      case orr: (Inr b)
      obtain oob ob ot where b: "b = (oob, ob, ot)" by (cases b)
      note eq = create_association_checked[OF t sr[unfolded a] orr[unfolded b], of reg new_id now]
      show ?thesis
      proof (cases "Predicates reg p")
        case None
        then show ?thesis using assms eq args by simp
      next
        case (Some pt)
        let ?new = "(new_association s st p ob ot now)\<lparr>doc_id := new_id, doc_rev := ''1''\<rparr>"
        have app: "(Some s, Some p, Some ob) \<notin> set (map triple (live_assocs ds)) \<Longrightarrow>
            one_per_triple (ds\<lparr>docs := docs ds @ [?new]\<rparr>)"
          using one_per_triple_append[OF assms, of ?new] by (simp add: new_association_live)
        have cd: "(Some s, Some p, Some ob) \<notin> set (map triple (live_assocs ds)) \<Longrightarrow>
            one_per_triple (snd (create_doc ds (new_association s st p ob ot now) new_id))"
          using create_doc_state[of ds "new_association s st p ob ot now" new_id] app assms by auto
        show ?thesis
          unfolding args eq Some option.case
          using assms cd by (simp split: if_split)
      qed
    qed
  qed
qed

lemma reachable_one_per_triple:
  assumes "reachable reg ds0 ds" and "one_per_triple ds0"
  shows "one_per_triple ds"
  using assms
proof (induction rule: reachable.induct)
  case start
  then show ?case by simp
next
  case (created ds new_id now subject predicate obj)
  then show ?case by (simp add: create_association_keeps_one_per_triple)
next
  case (deleted ds association)
  then have a: "one_per_triple ds" by simp
  obtain P where "docs (snd (delete_association ds association)) = filter P (docs ds)"
    using delete_association_docs by blast
  with a show ?case by (rule one_per_triple_filter)
next
  case (removed ds doc del_associations)
  then have a: "one_per_triple ds" by simp
  obtain P where "docs (snd (delete_doc ds doc del_associations)) = filter P (docs ds)"
    using delete_doc_docs by blast
  with a show ?case by (rule one_per_triple_filter)
qed

text \<open>
  C1, as amended. Take a call of \<open>create_association\<close> with all three arguments set
  whose subject and object resolve (each is read from the store, or carries its
  \<open>_id\<close> and \<open>_rev\<close>). If an association with the same subject, predicate and object
  that is not retired exists, the call fails with a \<open>BadRequest\<close> and the store is
  unchanged. If moreover the predicate is known and permits the types of the
  subject and the object, then: with such an association in the store the call fails
  with \<open>BadRequest\<close> (already exists); without one, and with a fresh id, it persists a
  new association and returns its id and revision, and a second call with the same
  arguments right after it fails with \<open>BadRequest\<close> (already exists). Every state
  reachable by operations of the Association Manager from a state with at most one
  such association per triple has at most one per triple.
\<close>

theorem create_association_no_duplicate:
  assumes "ref_truthy (Some sref)" and "ref_truthy (Some oref)" and "p \<noteq> []"
    and "resolve ds sref ''Subject id or rev not available'' = Inr (sob, s, st)"
    and "resolve ds oref ''Object id or rev not available'' = Inr (oob, ob, ot)"
  shows
    "let call = create_association reg new_id now ds (Some sref) (Some p) (Some oref);
         dup = ((Some s, Some p, Some ob) \<in> set (map triple (live_assocs ds)));
         exists = BadRequest ''Association between %s and %s with predicate %s already exists''
     in (dup \<longrightarrow> (\<exists>m. fst call = Inl (BadRequest m)) \<and> snd call = ds)
      \<and> (Predicates reg p = Some pt \<and> type_permitted reg st (pt_domain pt)
            \<and> type_permitted reg ot (pt_range pt) \<longrightarrow>
           (dup \<longrightarrow> call = (Inl exists, ds))
         \<and> (\<not> dup \<and> new_id \<notin> set (map doc_id (docs ds)) \<longrightarrow>
              call = (Inr (new_id, ''1''),
                      ds\<lparr>docs := docs ds @
                        [(new_association s st p ob ot now)\<lparr>doc_id := new_id, doc_rev := ''1''\<rparr>]\<rparr>)
            \<and> create_association reg new_id' now' (snd call) (Some sref) (Some p) (Some oref)
                = (Inl exists, snd call)))
      \<and> (one_per_triple ds0 \<and> reachable reg ds0 ds1 \<longrightarrow> one_per_triple ds1)"
proof -
  note eq = create_association_checked[OF assms, of reg new_id now]
  let ?new = "(new_association s st p ob ot now)\<lparr>doc_id := new_id, doc_rev := ''1''\<rparr>"
  let ?ds' = "ds\<lparr>docs := docs ds @ [?new]\<rparr>"
  have a: "(Some s, Some p, Some ob) \<in> set (map triple (live_assocs ds)) \<Longrightarrow>
      (\<exists>m. fst (create_association reg new_id now ds (Some sref) (Some p) (Some oref)) = Inl (BadRequest m))
      \<and> snd (create_association reg new_id now ds (Some sref) (Some p) (Some oref)) = ds"
    unfolding eq by (cases "Predicates reg p") auto
  have b: "Predicates reg p = Some pt \<Longrightarrow> type_permitted reg st (pt_domain pt) \<Longrightarrow>
      type_permitted reg ot (pt_range pt) \<Longrightarrow>
      (Some s, Some p, Some ob) \<in> set (map triple (live_assocs ds)) \<Longrightarrow>
      create_association reg new_id now ds (Some sref) (Some p) (Some oref)
        = (Inl (BadRequest ''Association between %s and %s with predicate %s already exists''), ds)"
    unfolding eq by simp
  have c: "Predicates reg p = Some pt \<Longrightarrow> type_permitted reg st (pt_domain pt) \<Longrightarrow>
      type_permitted reg ot (pt_range pt) \<Longrightarrow>
      (Some s, Some p, Some ob) \<notin> set (map triple (live_assocs ds)) \<Longrightarrow>
      new_id \<notin> set (map doc_id (docs ds)) \<Longrightarrow>
      create_association reg new_id now ds (Some sref) (Some p) (Some oref) = (Inr (new_id, ''1''), ?ds')"
    unfolding eq by (simp add: create_doc_fresh)
  have d: "Predicates reg p = Some pt \<Longrightarrow> type_permitted reg st (pt_domain pt) \<Longrightarrow>
      type_permitted reg ot (pt_range pt) \<Longrightarrow>
      create_association reg new_id' now' ?ds' (Some sref) (Some p) (Some oref)
        = (Inl (BadRequest ''Association between %s and %s with predicate %s already exists''), ?ds')"
  proof -
    assume h: "Predicates reg p = Some pt" "type_permitted reg st (pt_domain pt)"
      "type_permitted reg ot (pt_range pt)"
    have r1: "resolve ?ds' sref ''Subject id or rev not available'' = Inr (sob, s, st)"
      using assms(4) by (rule resolve_append)
    have r2: "resolve ?ds' oref ''Object id or rev not available'' = Inr (oob, ob, ot)"
      using assms(5) by (rule resolve_append)
    have dup: "(Some s, Some p, Some ob) \<in> set (map triple (live_assocs ?ds'))"
      by (simp add: live_assocs_append new_association_live)
    show ?thesis
      unfolding create_association_checked[OF assms(1-3) r1 r2, of reg new_id' now']
      using h dup by simp
  qed
  have e: "one_per_triple ds0 \<and> reachable reg ds0 ds1 \<longrightarrow> one_per_triple ds1"
    using reachable_one_per_triple by blast
  show ?thesis
    unfolding Let_def
    using a b c d e by (simp (no_asm_simp))
qed


text \<open>
  Creating \<open>r1 hasPart r3\<close> in the example store succeeds; creating it again fails.
\<close>

theorem create_association_no_duplicate_witness:
  "create_association ex_registry ''a1'' ''0'' ex_resources
       (Some (RefStr ''r1'')) (Some ''hasPart'') (Some (RefStr ''r3''))
     = (Inr (''a1'', ''1''),
        ex_resources\<lparr>docs := docs ex_resources @
          [(new_association ''r1'' ''A'' ''hasPart'' ''r3'' ''B'' ''0'')\<lparr>doc_id := ''a1'', doc_rev := ''1''\<rparr>]\<rparr>)
   \<and> create_association ex_registry ''a2'' ''1''
          (snd (create_association ex_registry ''a1'' ''0'' ex_resources
                  (Some (RefStr ''r1'')) (Some ''hasPart'') (Some (RefStr ''r3''))))
          (Some (RefStr ''r1'')) (Some ''hasPart'') (Some (RefStr ''r3''))
     = (Inl (BadRequest ''Association between %s and %s with predicate %s already exists''),
        snd (create_association ex_registry ''a1'' ''0'' ex_resources
                  (Some (RefStr ''r1'')) (Some ''hasPart'') (Some (RefStr ''r3''))))
   \<and> one_per_triple (snd (create_association ex_registry ''a1'' ''0'' ex_resources
                  (Some (RefStr ''r1'')) (Some ''hasPart'') (Some (RefStr ''r3''))))"
proof -
  have r1: "resolve ex_resources (RefStr ''r1'') m
      = Inr (\<lparr>io_id = Some ''r1'', io_rev = Some ''1'', io_type = ''A''\<rparr>, ''r1'', ''A'')" for m
    by (simp add: resolve_def read_def read_doc_def ex_resources_def resource_def
          persistence_dict_to_ion_object_def)
  have r3: "resolve ex_resources (RefStr ''r3'') m
      = Inr (\<lparr>io_id = Some ''r3'', io_rev = Some ''1'', io_type = ''B''\<rparr>, ''r3'', ''B'')" for m
    by (simp add: resolve_def read_def read_doc_def ex_resources_def resource_def
          persistence_dict_to_ion_object_def)
  have t: "ref_truthy (Some (RefStr ''r1''))" "ref_truthy (Some (RefStr ''r3''))" "''hasPart'' \<noteq> []"
    by simp_all
  have p: "Predicates ex_registry ''hasPart'' = Some \<lparr>pt_domain = [''A''], pt_range = [''B'']\<rparr>"
    by (simp add: ex_registry_def)
  have tp: "type_permitted ex_registry ''A'' (pt_domain \<lparr>pt_domain = [''A''], pt_range = [''B'']\<rparr>)"
    "type_permitted ex_registry ''B'' (pt_range \<lparr>pt_domain = [''A''], pt_range = [''B'']\<rparr>)"
    by (simp_all add: type_permitted_def)
  have l: "live_assocs ex_resources = []"
    by (simp add: live_assocs_def ex_resources_def resource_def live_assoc_def)
  have nd: "\<not> (Some ''r1'', Some ''hasPart'', Some ''r3'') \<in> set (map triple (live_assocs ex_resources))"
    by (simp add: l)
  have f: "''a1'' \<notin> set (map doc_id (docs ex_resources))"
    by (simp add: ex_resources_def resource_def)
  have o: "one_per_triple ex_resources"
    by (simp add: one_per_triple_def l)
  have re: "reachable ex_registry ex_resources
      (snd (create_association ex_registry ''a1'' ''0'' ex_resources
                  (Some (RefStr ''r1'')) (Some ''hasPart'') (Some (RefStr ''r3''))))"
    by (rule reachable.created[OF reachable.start])
  show ?thesis
    using create_association_no_duplicate[OF t r1 r3, of ex_registry "''a1''" "''0''"
        "\<lparr>pt_domain = [''A''], pt_range = [''B'']\<rparr>" "''a2''" "''1''" ex_resources
        "snd (create_association ex_registry ''a1'' ''0'' ex_resources
                  (Some (RefStr ''r1'')) (Some ''hasPart'') (Some (RefStr ''r3'')))",
        unfolded Let_def]
      p tp nd f o re
    by blast
qed

text \<open>
  C1, as stated, fails. Without any association in the store, a call with an unknown
  predicate does not persist anything: it fails with \<open>BadRequest\<close>. And with an
  association of the same triple in the store, a call whose subject id can no longer
  be read fails with \<open>NotFound\<close>, not \<open>BadRequest\<close>.
\<close>

theorem create_association_may_fail_without_duplicate:
  "live_assocs ex_resources = []
   \<and> create_association ex_registry ''a1'' ''0'' ex_resources
       (Some (RefStr ''r1'')) (Some ''hasMember'') (Some (RefStr ''r3''))
     = (Inl (BadRequest ''Predicate unknown %s''), ex_resources)
   \<and> map triple (live_assocs ex_dangling) = [(Some ''gone'', Some ''hasPart'', Some ''r3'')]
   \<and> create_association ex_registry ''a2'' ''0'' ex_dangling
       (Some (RefStr ''gone'')) (Some ''hasPart'') (Some (RefStr ''r3''))
     = (Inl NotFound, ex_dangling)"
  by code_simp

subsection \<open>One-hop traversal: lemmas\<close>











subsection \<open>C4: one-hop traversal narrows\<close>

























subsection \<open>C5: deleting a document, with and without its associations\<close>

lemma by_id_rows:
  "set (view association_by_id inc ds) =
     {r. \<exists>a \<in> set (docs ds). live_assoc a \<and>
            (r = row_of inc a (kopt (doc_s a), Some a) \<or> r = row_of inc a (kopt (doc_o a), Some a))}"
  by (auto simp: set_view emit_rows_def association_by_id_def live_assoc_def split: if_splits)

lemma anyside_ids_set:
  "set (map row_id (view_keys (view association_by_id inc ds) [KStr d]))
     = doc_id ` {a \<in> set (docs ds). refers_to d a}"
proof (rule set_eqI, rule iffI)
  fix x
  assume "x \<in> set (map row_id (view_keys (view association_by_id inc ds) [KStr d]))"
  then obtain r where r: "r \<in> set (view association_by_id inc ds)" "row_key r = KStr d" "x = row_id r"
    by (auto simp: view_keys_def)
  from r(1) obtain a where a: "a \<in> set (docs ds)" "live_assoc a"
      "r = row_of inc a (kopt (doc_s a), Some a) \<or> r = row_of inc a (kopt (doc_o a), Some a)"
    unfolding by_id_rows by blast
  from a(3) r(2) have "doc_s a = Some d \<or> doc_o a = Some d"
    by (auto simp: row_of_def kopt_eq_KStr)
  moreover from a(3) r(3) have "x = doc_id a"
    by (auto simp: row_of_def)
  ultimately show "x \<in> doc_id ` {a \<in> set (docs ds). refers_to d a}"
    using a(1,2) by (auto simp: refers_to_def)
next
  fix x
  assume "x \<in> doc_id ` {a \<in> set (docs ds). refers_to d a}"
  then obtain a where a: "a \<in> set (docs ds)" "live_assoc a" "doc_s a = Some d \<or> doc_o a = Some d"
      "x = doc_id a"
    by (auto simp: refers_to_def)
  from a(3) obtain k where k: "k = doc_s a \<or> k = doc_o a" "k = Some d" by blast
  let ?r = "row_of inc a (kopt k, Some a)"
  have "?r \<in> set (view association_by_id inc ds)"
    unfolding by_id_rows using a(1,2) k(1) by blast
  moreover have "row_key ?r = KStr d" "row_id ?r = x"
    using k(2) a(4) by (simp_all add: row_of_def kopt_def)
  ultimately have "?r \<in> set (view_keys (view association_by_id inc ds) [KStr d])"
    by (simp add: view_keys_def)
  then have "row_id ?r \<in> set (map row_id (view_keys (view association_by_id inc ds) [KStr d]))"
    by (simp only: set_map) (rule imageI)
  then show "x \<in> set (map row_id (view_keys (view association_by_id inc ds) [KStr d]))"
    using \<open>row_id ?r = x\<close> by simp
qed

lemma find_associations_anyside:
  assumes "d \<noteq> []"
  shows "find_associations ds None None None True (Some (AnyStr d)) limit =
     Inr (Ids (map row_id (view_limit limit (view_keys (view association_by_id False ds) [KStr d]))))"
  using assms
  by (simp add: find_associations_def Let_def scalar_keys_def id_value_def comp_def)

lemma find_associations_anyside_empty:
  assumes "d \<noteq> []" and "\<And>a. a \<in> set (docs ds) \<Longrightarrow> \<not> refers_to d a"
  shows "find_associations ds None None None True (Some (AnyStr d)) None = Inr (Ids [])"
proof -
  have "set (map row_id (view_keys (view association_by_id False ds) [KStr d])) = {}"
    unfolding anyside_ids_set using assms(2) by auto
  then have "map row_id (view_keys (view association_by_id False ds) [KStr d]) = []"
    by (simp only: set_empty)
  then show ?thesis
    unfolding find_associations_anyside[OF assms(1)] view_limit_None by simp
qed

lemma is_in_association_iff:
  assumes "d \<noteq> []"
  shows "is_in_association ds d = Inr (\<exists>a \<in> set (docs ds). refers_to d a)"
proof -
  let ?ids = "map row_id (view_keys (view association_by_id False ds) [KStr d])"
  have "(map row_id (view_limit (Some 1) (view_keys (view association_by_id False ds) [KStr d])) \<noteq> [])
      = (?ids \<noteq> [])"
    by (cases "view_keys (view association_by_id False ds) [KStr d]") (simp_all add: view_limit_def)
  also have "\<dots> = (set ?ids \<noteq> {})" by (simp only: set_empty)
  also have "\<dots> = (\<exists>a \<in> set (docs ds). refers_to d a)"
    unfolding anyside_ids_set by auto
  finally show ?thesis
    using assms by (simp add: is_in_association_def find_associations_anyside)
qed

lemma base_delete_doc_subset:
  "set (docs (snd (base_delete_doc ds doc))) \<subseteq> set (docs ds)"
  using base_delete_doc_docs[of ds doc] by auto

lemma base_delete_doc_keeps:
  "x \<in> set (docs ds) \<Longrightarrow> doc_id x \<noteq> docref_id doc \<Longrightarrow> x \<in> set (docs (snd (base_delete_doc ds doc)))"
  by (cases doc) (auto simp: base_delete_doc_def split: sum.splits)

lemma base_delete_doc_id:
  "d \<in> set (map doc_id (docs ds)) \<Longrightarrow>
     base_delete_doc ds (DocId d) = (Inr (), ds\<lparr>docs := filter (\<lambda>x. doc_id x \<noteq> d) (docs ds)\<rparr>)"
  by (auto simp: base_delete_doc_def read_doc_def find_None_iff split: option.splits)

lemma delete_doc_cascade:
  assumes "docref_id doc \<noteq> []"
  shows "delete_doc ds doc True =
     base_delete_doc
       (delete_doc_mult ds
          (map row_id (view_keys (view association_by_id False ds) [KStr (docref_id doc)]))) doc"
  unfolding delete_doc_def Let_def find_associations_anyside[OF assms] view_limit_None by simp


text \<open>
  C5, as amended. Deleting a document (with a non-empty id \<open>d\<close>) with
  \<open>del_associations\<close> first finds, through the any-side index, the associations that
  are not retired and have \<open>d\<close> as their subject or object (\<open>refers_to\<close>), and deletes
  them before the document itself: afterwards no such association is left, an
  any-side lookup for \<open>d\<close> returns the empty list, and every other document is still
  there. Deleting without \<open>del_associations\<close> while such associations exist logs one
  warning and goes on with the deletion of the document as if there were none; the
  associations stay.
\<close>

theorem delete_doc_cascade_and_warning:
  assumes "docref_id doc \<noteq> []"
  shows "let d = docref_id doc;
             cascaded = snd (delete_doc ds doc True);
             msg = ''Deleting object %s that still has associations''
         in find_associations cascaded None None None True (Some (AnyStr d)) None = Inr (Ids [])
          \<and> (\<forall>a \<in> set (docs cascaded). \<not> refers_to d a)
          \<and> set (docs cascaded) \<subseteq> set (docs ds)
          \<and> (\<forall>x \<in> set (docs ds).
                doc_id x \<noteq> d \<and> doc_id x \<notin> doc_id ` {a \<in> set (docs ds). refers_to d a}
                \<longrightarrow> x \<in> set (docs cascaded))
          \<and> ((\<exists>a \<in> set (docs ds). refers_to d a) \<longrightarrow>
                delete_doc ds doc False
                  = base_delete_doc (ds\<lparr>warnings := warnings ds @ [msg]\<rparr>) doc)
          \<and> ((\<exists>a \<in> set (docs ds). refers_to d a) \<and> doc = DocId d
                \<and> d \<in> set (map doc_id (docs ds)) \<longrightarrow>
                delete_doc ds doc False
                  = (Inr (), ds\<lparr>docs := filter (\<lambda>x. doc_id x \<noteq> d) (docs ds),
                                warnings := warnings ds @ [msg]\<rparr>))
          \<and> (\<not> (\<exists>a \<in> set (docs ds). refers_to d a) \<longrightarrow>
                delete_doc ds doc False = base_delete_doc ds doc)"
proof -
  define d where "d = docref_id doc"
  define ids where "ids = map row_id (view_keys (view association_by_id False ds) [KStr d])"
  define mid where "mid = delete_doc_mult ds ids"
  define cascaded where "cascaded = snd (delete_doc ds doc True)"
  have dne: "d \<noteq> []" using assms by (simp add: d_def)
  have c: "cascaded = snd (base_delete_doc mid doc)"
    unfolding cascaded_def mid_def ids_def d_def by (simp add: delete_doc_cascade[OF assms])
  have ids: "set ids = doc_id ` {a \<in> set (docs ds). refers_to d a}"
    unfolding ids_def by (rule anyside_ids_set)
  have mid: "docs mid = filter (\<lambda>x. doc_id x \<notin> set ids) (docs ds)"
    by (simp add: mid_def delete_doc_mult_def)
  have sub: "set (docs cascaded) \<subseteq> set (docs mid)"
    unfolding c by (rule base_delete_doc_subset)
  have 3: "set (docs cascaded) \<subseteq> set (docs ds)"
    using sub mid by auto
  have 2: "\<forall>a \<in> set (docs cascaded). \<not> refers_to d a"
  proof
    fix a assume "a \<in> set (docs cascaded)"
    then have a: "a \<in> set (docs ds)" "doc_id a \<notin> set ids" using sub mid by auto
    show "\<not> refers_to d a"
    proof
      assume "refers_to d a"
      with a(1) have "doc_id a \<in> set ids" unfolding ids by blast
      with a(2) show False by simp
    qed
  qed
  have 1: "find_associations cascaded None None None True (Some (AnyStr d)) None = Inr (Ids [])"
    using dne 2 by (intro find_associations_anyside_empty) auto
  have 4: "\<forall>x \<in> set (docs ds).
                doc_id x \<noteq> d \<and> doc_id x \<notin> doc_id ` {a \<in> set (docs ds). refers_to d a}
                \<longrightarrow> x \<in> set (docs cascaded)"
  proof (intro ballI impI)
    fix x assume x: "x \<in> set (docs ds)"
      "doc_id x \<noteq> d \<and> doc_id x \<notin> doc_id ` {a \<in> set (docs ds). refers_to d a}"
    then have "x \<in> set (docs mid)" unfolding mid ids[symmetric] by simp
    then show "x \<in> set (docs cascaded)"
      unfolding c using x(2) by (intro base_delete_doc_keeps) (simp_all add: d_def)
  qed
  have iia: "is_in_association ds d = Inr (\<exists>a \<in> set (docs ds). refers_to d a)"
    by (rule is_in_association_iff[OF dne])
  have 5: "(\<exists>a \<in> set (docs ds). refers_to d a) \<longrightarrow>
                delete_doc ds doc False
                  = base_delete_doc (ds\<lparr>warnings := warnings ds
                      @ [''Deleting object %s that still has associations'']\<rparr>) doc"
    by (simp add: delete_doc_def Let_def iia[unfolded d_def] d_def)
  have 7: "\<not> (\<exists>a \<in> set (docs ds). refers_to d a) \<longrightarrow>
                delete_doc ds doc False = base_delete_doc ds doc"
    by (simp add: delete_doc_def Let_def iia[unfolded d_def] d_def)
  have 6: "(\<exists>a \<in> set (docs ds). refers_to d a) \<and> doc = DocId d
                \<and> d \<in> set (map doc_id (docs ds)) \<longrightarrow>
                delete_doc ds doc False
                  = (Inr (), ds\<lparr>docs := filter (\<lambda>x. doc_id x \<noteq> d) (docs ds),
                                warnings := warnings ds
                      @ [''Deleting object %s that still has associations'']\<rparr>)"
  proof (intro impI, elim conjE)
    assume h: "\<exists>a \<in> set (docs ds). refers_to d a" "doc = DocId d" "d \<in> set (map doc_id (docs ds))"
    have "d \<in> set (map doc_id (docs (ds\<lparr>warnings := warnings ds
                      @ [''Deleting object %s that still has associations'']\<rparr>)))"
      using h(3) by simp
    from base_delete_doc_id[OF this] show "delete_doc ds doc False
                  = (Inr (), ds\<lparr>docs := filter (\<lambda>x. doc_id x \<noteq> d) (docs ds),
                                warnings := warnings ds
                      @ [''Deleting object %s that still has associations'']\<rparr>)"
      using 5 h(1,2) by simp
  qed
  show ?thesis
    unfolding Let_def
    unfolding d_def[symmetric]
    unfolding cascaded_def[symmetric]
    using 1 2 3 4 5 6 7 by (intro conjI)
qed

text \<open>
  Deleting \<open>r3\<close> from the example graph with its associations leaves \<open>r2\<close>, \<open>r1\<close> and the
  association \<open>a3\<close>; deleting it without them warns and removes \<open>r3\<close> only.
\<close>

theorem delete_doc_cascade_and_warning_witness:
  "find_associations (snd (delete_doc ex_graph (DocId ''r3'') True)) None None None True
       (Some (AnyStr ''r3'')) None = Inr (Ids [])
   \<and> map doc_id (docs (snd (delete_doc ex_graph (DocId ''r3'') True))) = [''r2'', ''r1'', ''a3'']
   \<and> delete_doc ex_graph (DocId ''r3'') False
       = (Inr (), ex_graph\<lparr>docs := filter (\<lambda>x. doc_id x \<noteq> ''r3'') (docs ex_graph),
                   warnings := warnings ex_graph @ [''Deleting object %s that still has associations'']\<rparr>)"
proof -
  have n: "docref_id (DocId ''r3'') \<noteq> []" by simp
  have r: "\<exists>a \<in> set (docs ex_graph). refers_to ''r3'' a"
    by code_simp
  have i: "''r3'' \<in> set (map doc_id (docs ex_graph))"
    by code_simp
  have m: "map doc_id (docs (snd (delete_doc ex_graph (DocId ''r3'') True))) = [''r2'', ''r1'', ''a3'']"
    by code_simp
  show ?thesis
    using delete_doc_cascade_and_warning[OF n, of ex_graph, unfolded Let_def docref_id.simps] r i m
    by blast
qed

subsection \<open>C8: the alternate-id index\<close>













subsection \<open>C5: retired associations\<close>

text \<open>
  C5, as stated, fails for an association that is retired: it is not in the any-side
  index, so it is neither found nor deleted, and stays in the store with the deleted
  document as its object.
\<close>

theorem retired_association_survives_cascade:
  "docs (snd (delete_doc ex_retired (DocId ''r3'') True))
     = [(association ''a1'' ''r1'' ''A'' ''hasPart'' ''r3'' ''B'')\<lparr>doc_retired := True\<rparr>]
   \<and> doc_type ((association ''a1'' ''r1'' ''A'' ''hasPart'' ''r3'' ''B'')\<lparr>doc_retired := True\<rparr>)
     = ''Association''
   \<and> doc_o ((association ''a1'' ''r1'' ''A'' ''hasPart'' ''r3'' ''B'')\<lparr>doc_retired := True\<rparr>)
     = Some ''r3''"
  by code_simp

end
